theory Spec2Isabelle
  imports Main "HOL-Library.Word"
begin

unbundle bit_operations_syntax

section \<open>Values of the JavaScript program\<close>

text \<open>
  The program is JavaScript. A number that holds an integer is an \<open>int\<close>; on integers in
  the 32-bit range the operators \<open>&\<close>, \<open>^\<close>, \<open>|\<close> and \<open>>>\<close> are \<open>AND\<close>, \<open>XOR\<close>,
  \<open>OR\<close> and \<open>drop_bit\<close> of \<open>int\<close> (two's complement), and every \<open>a << 1\<close> of the
  source is masked with \<open>0xff\<close> at once. A number that may also be \<open>NaN\<close> or
  \<open>undefined\<close> is an \<open>int option\<close> with \<open>None\<close> for both: a bitwise operator reads
  either as 0 (\<open>ToInt32\<close>), and \<open>=== 0\<close> is false for either. A \<open>Uint8Array\<close> is an
  \<open>8 word list\<close>, and storing a number into it is \<open>word_of_int\<close> (\<open>ToUint8\<close>). A
  string is the list of its UTF-16 code units, each a number from 0 to 65535.
\<close>

type_synonym jsstring = "int list"

definition js :: "string \<Rightarrow> jsstring" where
  "js s = map of_char s"

definition ToInt32 :: "int option \<Rightarrow> int" where
  "ToInt32 v = (case v of None \<Rightarrow> 0 | Some n \<Rightarrow> n)"

definition ToUint8 :: "int option \<Rightarrow> 8 word" where
  "ToUint8 v = (case v of None \<Rightarrow> 0 | Some n \<Rightarrow> word_of_int n)"

datatype error =
    ThresholdTooSmall
  | TotalSharesTooSmall
  | QuotaExceededError
  | InvalidShareFormat
  | DivisionByZero
  | TypeError
  | RangeError
  | NoPoints
  | DuplicateX
  | ZeroHasNoInverse
  | NotInvertible
  | PolyDivisionByZero

text \<open>\<open>Array.prototype.map\<close> with a callback that may throw: the first throw ends it.\<close>

fun map_result :: "('a \<Rightarrow> error + 'b) \<Rightarrow> 'a list \<Rightarrow> error + 'b list" where
  "map_result f [] = Inr []"
| "map_result f (v # vs) =
     (case f v of
        Inl e \<Rightarrow> Inl e
      | Inr r \<Rightarrow> (case map_result f vs of Inl e \<Rightarrow> Inl e | Inr rs \<Rightarrow> Inr (r # rs)))"

section \<open>Field arithmetic: the object \<open>gf256\<close> of improved-crypto.js\<close>

text \<open>The loop of \<open>gf256.mul\<close>; the first argument counts the iterations left.\<close>

fun mul_loop :: "nat \<Rightarrow> int \<Rightarrow> int \<Rightarrow> int \<Rightarrow> int" where
  "mul_loop 0 p a b = p"
| "mul_loop (Suc n) p a b =
     (let p' = (if b AND 1 \<noteq> 0 then p XOR a else p);
          highBit = a AND 0x80;
          a' = (push_bit 1 a) AND 0xff;
          a'' = (if highBit \<noteq> 0 then a' XOR 0x1b else a')
      in mul_loop n p' a'' (drop_bit 1 b))"

definition gf256_mul :: "int \<Rightarrow> int \<Rightarrow> int" where
  "gf256_mul a b = mul_loop 8 0 a b"

definition inverseTable :: "int list" where
  "inverseTable = [
      0x00, 0x01, 0x8d, 0xf6, 0xcb, 0x52, 0x7b, 0xd1, 0xe8, 0x4f, 0x29, 0xc0, 0xb0, 0xe1, 0xe5, 0xc7,
      0x74, 0xb4, 0xaa, 0x4b, 0x99, 0x2b, 0x60, 0x5f, 0x58, 0x3f, 0xfd, 0xcc, 0xff, 0x40, 0xee, 0xb2,
      0x3a, 0x6e, 0x5a, 0xf1, 0x55, 0x4d, 0xa8, 0xc9, 0xc1, 0x0a, 0x98, 0x15, 0x30, 0x44, 0xa2, 0xc2,
      0x2c, 0x45, 0x92, 0x6c, 0xf3, 0x39, 0x66, 0x42, 0xf2, 0x35, 0x20, 0x6f, 0x77, 0xbb, 0x59, 0x19,
      0x1d, 0xfe, 0x37, 0x67, 0x2d, 0x31, 0xf5, 0x69, 0xa7, 0x64, 0xab, 0x13, 0x54, 0x25, 0xe9, 0x09,
      0xed, 0x5c, 0x05, 0xca, 0x4c, 0x24, 0x87, 0xbf, 0x18, 0x3e, 0x22, 0xf0, 0x51, 0xec, 0x61, 0x17,
      0x16, 0x5e, 0xaf, 0xd3, 0x49, 0xa6, 0x36, 0x43, 0xf4, 0x47, 0x91, 0xdf, 0x33, 0x93, 0x21, 0x3b,
      0x79, 0xb7, 0x97, 0x85, 0x10, 0xb5, 0xba, 0x3c, 0xb6, 0x70, 0xd0, 0x06, 0xa1, 0xfa, 0x81, 0x82,
      0x83, 0x7e, 0x7f, 0x80, 0x96, 0x73, 0xbe, 0x56, 0x9b, 0x9e, 0x95, 0xd9, 0xf7, 0x02, 0xb9, 0xa4,
      0xde, 0x6a, 0x32, 0x6d, 0xd8, 0x8a, 0x84, 0x72, 0x2a, 0x14, 0x9f, 0x88, 0xf9, 0xdc, 0x89, 0x9a,
      0xfb, 0x7c, 0x2e, 0xc3, 0x8f, 0xb8, 0x65, 0x48, 0x26, 0xc8, 0x12, 0x4a, 0xce, 0xe7, 0xd2, 0x62,
      0x0c, 0xe0, 0x1f, 0xef, 0x11, 0x75, 0x78, 0x71, 0xa5, 0x8e, 0x76, 0x3d, 0xbd, 0xbc, 0x86, 0x57,
      0x0b, 0x28, 0x2f, 0xa3, 0xda, 0xd4, 0xe4, 0x0f, 0xa9, 0x27, 0x53, 0x04, 0x1b, 0xfc, 0xac, 0xe6,
      0x7a, 0x07, 0xae, 0x63, 0xc5, 0xdb, 0xe2, 0xea, 0x94, 0x8b, 0xc4, 0xd5, 0x9d, 0xf8, 0x90, 0x6b,
      0xb1, 0x0d, 0xd6, 0xeb, 0xc6, 0x0e, 0xcf, 0xad, 0x08, 0x4e, 0xd7, 0xe3, 0x5d, 0x50, 0x1e, 0xb3,
      0x5b, 0x23, 0x38, 0x34, 0x68, 0x46, 0x03, 0x8c, 0xdd, 0x9c, 0x7d, 0xa0, 0xcd, 0x1a, 0x41, 0x1c]"

text \<open>\<open>inverseTable[b]\<close>: \<open>undefined\<close> outside the table.\<close>

definition inverseTable_at :: "int \<Rightarrow> int option" where
  "inverseTable_at b =
     (if 0 \<le> b \<and> b < int (length inverseTable) then Some (inverseTable ! nat b) else None)"

definition gf256_div :: "int \<Rightarrow> int \<Rightarrow> error + int" where
  "gf256_div a b =
     (if b = 0 then Inl DivisionByZero
      else if a = 0 then Inr 0
      else Inr (gf256_mul a (ToInt32 (inverseTable_at b))))"

section \<open>Polynomial evaluation and interpolation of improved-crypto.js\<close>

text \<open>
  \<open>evaluatePolynomial(coeffs, x)\<close>: \<open>result\<close> starts as \<open>coeffs[0]\<close> and every later
  coefficient is folded in by \<open>result = mul(result, x) ^ coeffs[i]\<close>. With no coefficient
  the result is \<open>undefined\<close>.
\<close>

definition horner_step :: "int \<Rightarrow> 8 word \<Rightarrow> int \<Rightarrow> int" where
  "horner_step x ci result = gf256_mul result x XOR uint ci"

fun evaluatePolynomial :: "8 word list \<Rightarrow> int \<Rightarrow> int option" where
  "evaluatePolynomial [] x = None"
| "evaluatePolynomial (c # cs) x = Some (fold (horner_step x) cs (uint c))"

type_synonym point = "int option \<times> int option"

text \<open>
  The inner loop over \<open>j\<close> for a fixed \<open>i\<close>, on the pair (numerator, denominator), and
  the pair it ends with.
\<close>

fun fraction_step :: "point list \<Rightarrow> nat \<Rightarrow> nat \<Rightarrow> int \<times> int \<Rightarrow> int \<times> int" where
  "fraction_step points i j (numerator, denominator) =
     (if i = j then (numerator, denominator)
      else (gf256_mul numerator (ToInt32 (fst (points ! j))),
            gf256_mul denominator (ToInt32 (fst (points ! j)) XOR ToInt32 (fst (points ! i)))))"

definition lagrange_fraction :: "point list \<Rightarrow> nat \<Rightarrow> int \<times> int" where
  "lagrange_fraction points i = fold (fraction_step points i) [0 ..< length points] (1, 1)"

definition lagrange_step :: "point list \<Rightarrow> nat \<Rightarrow> error + int \<Rightarrow> error + int" where
  "lagrange_step points i acc =
     (case acc of
        Inl e \<Rightarrow> Inl e
      | Inr result \<Rightarrow>
          if snd (points ! i) = Some 0 then Inr result
          else (case lagrange_fraction points i of
                  (numerator, denominator) \<Rightarrow>
                    (case gf256_div numerator denominator of
                       Inl e \<Rightarrow> Inl e
                     | Inr q \<Rightarrow> Inr (result XOR gf256_mul (ToInt32 (snd (points ! i))) q))))"

definition lagrangeInterpolation :: "point list \<Rightarrow> error + int" where
  "lagrangeInterpolation points = fold (lagrange_step points) [0 ..< length points] (Inr 0)"

section \<open>Strings and hexadecimal text\<close>

text \<open>\<open>Number.prototype.toString(16)\<close> on an integer: lowercase digits, a minus sign first.\<close>

definition hexDigit :: "int \<Rightarrow> int" where
  "hexDigit d = (if d < 10 then 48 + d else 87 + d)"

function toHex :: "int \<Rightarrow> jsstring" where
  "toHex n = (if n < 16 then [hexDigit n] else toHex (n div 16) @ [hexDigit (n mod 16)])"
  by pat_completeness auto
termination
  by (relation "measure nat") auto

definition toString16 :: "int \<Rightarrow> jsstring" where
  "toString16 v = (if v < 0 then 45 # toHex (- v) else toHex v)"

text \<open>\<open>padStart(2, '0')\<close>.\<close>

definition padStart2 :: "jsstring \<Rightarrow> jsstring" where
  "padStart2 s = replicate (2 - length s) 48 @ s"

definition bytesToHex :: "8 word list \<Rightarrow> jsstring" where
  "bytesToHex bytes = concat (map (\<lambda>b. padStart2 (toString16 (uint b))) bytes)"

text \<open>
  \<open>parseInt(s, 16)\<close> as ECMAScript defines it: leading white space is dropped, then a
  sign, then a prefix \<open>0x\<close> or \<open>0X\<close>; the longest run of hexadecimal digits that follows
  is the value, and \<open>NaN\<close> (\<open>None\<close>) results when that run is empty.
\<close>

definition isLineTerminator :: "int \<Rightarrow> bool" where
  "isLineTerminator c = (c = 0x0A \<or> c = 0x0D \<or> c = 0x2028 \<or> c = 0x2029)"

definition isStrWhiteSpaceChar :: "int \<Rightarrow> bool" where
  "isStrWhiteSpaceChar c =
     (c = 0x09 \<or> c = 0x0B \<or> c = 0x0C \<or> c = 0x20 \<or> c = 0xA0 \<or> c = 0x1680
      \<or> (0x2000 \<le> c \<and> c \<le> 0x200A) \<or> c = 0x202F \<or> c = 0x205F \<or> c = 0x3000
      \<or> c = 0xFEFF \<or> isLineTerminator c)"

definition hexDigitValue :: "int \<Rightarrow> int option" where
  "hexDigitValue c =
     (if 48 \<le> c \<and> c \<le> 57 then Some (c - 48)
      else if 97 \<le> c \<and> c \<le> 102 then Some (c - 87)
      else if 65 \<le> c \<and> c \<le> 70 then Some (c - 55)
      else None)"

definition parseInt16 :: "jsstring \<Rightarrow> int option" where
  "parseInt16 s =
     (let s1 = dropWhile isStrWhiteSpaceChar s;
          sign = (if take 1 s1 = [45] then - 1 else 1);
          s2 = (if take 1 s1 = [45] \<or> take 1 s1 = [43] then drop 1 s1 else s1);
          s3 = (if take 2 s2 = [48, 120] \<or> take 2 s2 = [48, 88] then drop 2 s2 else s2);
          digits = takeWhile (\<lambda>c. hexDigitValue c \<noteq> None) s3
      in if digits = [] then None
         else Some (sign * foldl (\<lambda>acc c. 16 * acc + ToInt32 (hexDigitValue c)) 0 digits))"

text \<open>
  \<open>hex.match(/.{1,2}/g)\<close>: the pieces of one or two code units, left to right; the dot
  matches no line terminator. No piece at all is \<open>null\<close>, the empty list here.
\<close>

fun matchPairs :: "jsstring \<Rightarrow> jsstring list" where
  "matchPairs [] = []"
| "matchPairs [a] = (if isLineTerminator a then [] else [[a]])"
| "matchPairs (a # b # r) =
     (if isLineTerminator a then matchPairs (b # r)
      else if isLineTerminator b then [a] # matchPairs r
      else [a, b] # matchPairs r)"

text \<open>\<open>hexToBytes\<close> of improved-crypto.js; \<open>null.map\<close> is a TypeError.\<close>

definition hexToBytes :: "jsstring \<Rightarrow> error + 8 word list" where
  "hexToBytes hex =
     (if hex = [] \<or> length hex mod 2 \<noteq> 0 then Inr []
      else if matchPairs hex = [] then Inl TypeError
      else Inr (map (\<lambda>byte. ToUint8 (parseInt16 byte)) (matchPairs hex)))"

section \<open>What the program takes from its platform\<close>

text \<open>
  \<open>TextEncoder\<close>, \<open>TextDecoder\<close>, \<open>crypto.getRandomValues\<close> and \<open>uuidv4\<close> are not code
  of this repository. They are parameters: \<open>textDecode label bytes\<close> is
  \<open>new TextDecoder(label).decode(bytes)\<close>, with \<open>None\<close> where the constructor throws a
  RangeError for a label it does not know; \<open>getRandomValues i k\<close> is the \<open>k\<close>-th byte the
  \<open>i\<close>-th call of \<open>getRandomValues\<close> writes; \<open>uuidv4 i\<close> is the \<open>i\<close>-th identifier drawn.
\<close>

record platform =
  textEncode :: "jsstring \<Rightarrow> 8 word list"
  textDecode :: "jsstring \<Rightarrow> 8 word list \<Rightarrow> jsstring option"
  getRandomValues :: "nat \<Rightarrow> nat \<Rightarrow> 8 word"
  uuidv4 :: "nat \<Rightarrow> jsstring"

text \<open>
  A platform for the closed examples: text is ASCII, where the UTF-8 bytes of a string are
  its code units; \<open>utf-8\<close> is the only label; every random byte drawn is \<open>r\<close>.
\<close>

definition ascii_platform :: "8 word \<Rightarrow> platform" where
  "ascii_platform r =
     \<lparr> textEncode = map word_of_int,
       textDecode = (\<lambda>label bytes. if label = js ''utf-8'' then Some (map uint bytes) else None),
       getRandomValues = (\<lambda>i k. r),
       uuidv4 = (\<lambda>i. toString16 (int i)) \<rparr>"

section \<open>Shares\<close>

text \<open>
  An element of the array given to \<open>combineShares\<close> is an object with the fields \<open>id\<close>,
  \<open>value\<close> and \<open>encoding\<close> (a field may be missing), or a string.
\<close>

datatype share =
    ShareObj (share_id: jsstring) (share_value: "jsstring option") (share_encoding: "jsstring option")
  | ShareStr jsstring

text \<open>The entries of \<open>shares\<close> inside \<open>createShares\<close>, and of \<open>decodedShares\<close>.\<close>

record raw_share =
  share_x :: int
  share_y :: "int option list"

record decoded_share =
  dec_x :: "int option"
  dec_y :: "int list"

section \<open>\<open>createShares\<close> of improved-crypto.js\<close>

text \<open>
  The body of the loop over \<open>x\<close>: \<open>shares[x - 1]\<close> is created when it is \<open>undefined\<close>,
  extended otherwise. The loop runs \<open>x\<close> upwards from 1, so a missing entry is the next one.
\<close>

definition add_point :: "raw_share list \<Rightarrow> int \<Rightarrow> int option \<Rightarrow> raw_share list" where
  "add_point shares xv yv =
     (if nat (xv - 1) < length shares
      then shares[nat (xv - 1) :=
             (shares ! nat (xv - 1))\<lparr>share_y := share_y (shares ! nat (xv - 1)) @ [yv]\<rparr>]
      else shares @ [\<lparr>share_x = xv, share_y = [yv]\<rparr>])"

text \<open>
  \<open>coeffs\<close> for one byte of the secret: \<open>threshold\<close> bytes, the first the secret's byte,
  the others random.
\<close>

definition make_coeffs :: "platform \<Rightarrow> 8 word list \<Rightarrow> int \<Rightarrow> nat \<Rightarrow> 8 word list" where
  "make_coeffs P secretBytes threshold byteIndex =
     (secretBytes ! byteIndex) # map (getRandomValues P byteIndex) [0 ..< nat threshold - 1]"

text \<open>The loop over \<open>x\<close> for one byte of the secret, and its body.\<close>

definition share_point :: "8 word list \<Rightarrow> int \<Rightarrow> raw_share list \<Rightarrow> raw_share list" where
  "share_point coeffs xv shares = add_point shares xv (evaluatePolynomial coeffs xv)"

definition share_byte :: "platform \<Rightarrow> 8 word list \<Rightarrow> int \<Rightarrow> int \<Rightarrow> nat \<Rightarrow> raw_share list \<Rightarrow> raw_share list" where
  "share_byte P secretBytes totalShares threshold byteIndex shares =
     fold (share_point (make_coeffs P secretBytes threshold byteIndex)) [1 .. totalShares] shares"

definition encode_share :: "platform \<Rightarrow> nat \<times> raw_share \<Rightarrow> share" where
  "encode_share P = (\<lambda>(k, s).
     ShareObj (js ''share-'' @ uuidv4 P k)
              (Some (js ''80'' @ padStart2 (toString16 (share_x s))
                       @ bytesToHex (map ToUint8 (share_y s))))
              (Some (js ''utf-8'')))"

text \<open>
  \<open>getRandomValues\<close> throws a QuotaExceededError when asked for more than 65536 bytes;
  it is asked for \<open>threshold - 1\<close> bytes once for each byte of the secret.
\<close>

definition createShares :: "platform \<Rightarrow> jsstring \<Rightarrow> int \<Rightarrow> int \<Rightarrow> error + share list" where
  "createShares P secret totalShares threshold =
     (if threshold < 2 then Inl ThresholdTooSmall
      else if totalShares < threshold then Inl TotalSharesTooSmall
      else let secretBytes = textEncode P secret in
        if secretBytes \<noteq> [] \<and> 65536 < threshold - 1 then Inl QuotaExceededError
        else Inr (map (encode_share P)
                   (enumerate 0
                      (fold (share_byte P secretBytes totalShares threshold)
                            [0 ..< length secretBytes] []))))"

section \<open>\<open>combineShares\<close> of improved-crypto.js\<close>

text \<open>\<open>share.value || share\<close>: a string, or (\<open>None\<close>) the object itself.\<close>

fun shareValue :: "share \<Rightarrow> jsstring option" where
  "shareValue (ShareStr s) = Some s"
| "shareValue (ShareObj i v e) =
     (case v of None \<Rightarrow> None | Some s \<Rightarrow> if s = [] then None else Some s)"

text \<open>\<open>shares[0].encoding || 'utf-8'\<close>.\<close>

fun shareEncoding :: "share \<Rightarrow> jsstring" where
  "shareEncoding (ShareStr s) = js ''utf-8''"
| "shareEncoding (ShareObj i v e) =
     (case e of None \<Rightarrow> js ''utf-8'' | Some l \<Rightarrow> if l = [] then js ''utf-8'' else l)"

text \<open>The callback that decodes one share value; an object has no \<open>startsWith\<close>.\<close>

definition decodeShare :: "jsstring option \<Rightarrow> error + decoded_share" where
  "decodeShare sv =
     (case sv of
        None \<Rightarrow> Inl TypeError
      | Some v \<Rightarrow>
          if take 2 v \<noteq> js ''80'' then Inl InvalidShareFormat
          else (case hexToBytes (drop 4 v) of
                  Inl e \<Rightarrow> Inl e
                | Inr yBytes \<Rightarrow>
                    Inr \<lparr>dec_x = parseInt16 (take 2 (drop 2 v)), dec_y = map uint yBytes\<rparr>))"

text \<open>\<open>share.y[byteIndex]\<close>: \<open>undefined\<close> beyond the end.\<close>

definition y_at :: "decoded_share \<Rightarrow> nat \<Rightarrow> int option" where
  "y_at s byteIndex = (if byteIndex < length (dec_y s) then Some (dec_y s ! byteIndex) else None)"

definition points_at :: "decoded_share list \<Rightarrow> nat \<Rightarrow> point list" where
  "points_at decodedShares byteIndex = map (\<lambda>s. (dec_x s, y_at s byteIndex)) decodedShares"

text \<open>The body of the loop over \<open>byteIndex\<close>.\<close>

definition interpolate_byte :: "decoded_share list \<Rightarrow> nat \<Rightarrow> error + int" where
  "interpolate_byte decodedShares byteIndex =
     lagrangeInterpolation (points_at decodedShares byteIndex)"

definition combineShares :: "platform \<Rightarrow> share list \<Rightarrow> error + jsstring" where
  "combineShares P shares =
     (case shares of
        [] \<Rightarrow> Inl TypeError
      | first # others \<Rightarrow>
          (case map_result decodeShare (map shareValue shares) of
             Inl e \<Rightarrow> Inl e
           | Inr decodedShares \<Rightarrow>
               (case map_result (interpolate_byte decodedShares)
                                [0 ..< length (dec_y (hd decodedShares))] of
                  Inl e \<Rightarrow> Inl e
                | Inr result \<Rightarrow>
                    (case textDecode P (shareEncoding first) (map word_of_int result) of
                       None \<Rightarrow> Inl RangeError
                     | Some secret \<Rightarrow> Inr secret))))"

section \<open>Field arithmetic: the object \<open>GF256\<close> of test.js\<close>

text \<open>
  \<open>GF256.mul\<close> masks its arguments, returns 0 when one of them is 0, and runs the loop
  of \<open>gf256.mul\<close> otherwise.
\<close>

definition GF256_mul :: "int \<Rightarrow> int \<Rightarrow> int" where
  "GF256_mul a b =
     (let a = a AND 0xff; b = b AND 0xff
      in if a = 0 \<or> b = 0 then 0 else mul_loop 8 0 a b)"

text \<open>
  \<open>GF256.degree\<close>: the loop over \<open>i\<close> from 0 to 31 and its body. On a number of the
  32-bit range \<open>a & (1 << i)\<close> is not 0 exactly when \<open>a AND push_bit i 1\<close> is not.
\<close>

definition degree_step :: "int \<Rightarrow> nat \<Rightarrow> int \<Rightarrow> int" where
  "degree_step a i degree = (if a AND push_bit i 1 \<noteq> 0 then int i else degree)"

definition degree :: "int \<Rightarrow> int" where
  "degree a = fold (degree_step a) [0 ..< 32] (- 1)"

text \<open>\<open>GF256.polyDiv\<close>: the loop runs \<open>i\<close> from \<open>degree_diff\<close> down to 0.\<close>

fun polyDiv_step :: "int \<Rightarrow> nat \<Rightarrow> int \<times> int \<Rightarrow> int \<times> int" where
  "polyDiv_step b i (result, a) =
     (if a AND push_bit (nat (int i + degree b)) 1 \<noteq> 0
      then (result OR push_bit i 1, a XOR push_bit i b)
      else (result, a))"

definition polyDiv :: "int \<Rightarrow> int \<Rightarrow> error + int" where
  "polyDiv a b =
     (if b = 0 then Inl PolyDivisionByZero
      else let degree_diff = degree a - degree b
           in if degree_diff < 0 then Inr 0
              else Inr (fst (fold (polyDiv_step b) (rev [0 ..< nat (degree_diff + 1)]) (0, a))))"

text \<open>\<open>GF256.polyMul\<close>: \<open>while (a > 0)\<close>, with \<open>a\<close> halved in every round.\<close>

function polyMul_loop :: "int \<Rightarrow> int \<Rightarrow> int \<Rightarrow> int" where
  "polyMul_loop result a b =
     (if a > 0
      then polyMul_loop (if a AND 1 \<noteq> 0 then result XOR b else result)
             (drop_bit 1 a) (push_bit 1 b)
      else result)"
  by pat_completeness auto
termination
  by (relation "measure (\<lambda>(result, a, b). nat a)") (auto simp: drop_bit_eq_div)

definition polyMul :: "int \<Rightarrow> int \<Rightarrow> int" where
  "polyMul a b = polyMul_loop 0 a b"

text \<open>
  \<open>GF256.inverse\<close>, the extended Euclidean algorithm: \<open>while (newr !== 0)\<close>. The loop is
  a partial function; \<open>None\<close> is a run that does not end. It returns the pair \<open>(t, r)\<close>.
\<close>

partial_function (option) inverse_loop ::
  "int \<Rightarrow> int \<Rightarrow> int \<Rightarrow> int \<Rightarrow> (error + int \<times> int) option" where
  "inverse_loop t newt r newr =
     (if newr \<noteq> 0
      then (case polyDiv r newr of
              Inl e \<Rightarrow> Some (Inl e)
            | Inr q \<Rightarrow>
                inverse_loop newt (t XOR polyMul q newt) newr (r XOR polyMul q newr))
      else Some (Inr (t, r)))"

declare inverse_loop.simps [code]

definition GF256_inverse :: "int \<Rightarrow> (error + int) option" where
  "GF256_inverse a =
     (if a = 0 then Some (Inl ZeroHasNoInverse)
      else (case inverse_loop 0 1 0x11b a of
              None \<Rightarrow> None
            | Some (Inl e) \<Rightarrow> Some (Inl e)
            | Some (Inr (t, r)) \<Rightarrow> if r > 1 then Some (Inl NotInvertible) else Some (Inr t)))"

definition GF256_div :: "int \<Rightarrow> int \<Rightarrow> (error + int) option" where
  "GF256_div a b =
     (let a = a AND 0xff; b = b AND 0xff
      in if b = 0 then Some (Inl DivisionByZero)
         else if a = 0 then Some (Inr 0)
         else (case GF256_inverse b of
                 None \<Rightarrow> None
               | Some (Inl e) \<Rightarrow> Some (Inl e)
               | Some (Inr b_inv) \<Rightarrow> Some (Inr (GF256_mul a b_inv))))"

section \<open>Interpolation of test.js\<close>

text \<open>
  \<open>lagrangeInterpolation\<close> of test.js: the inner loop multiplies the quotients
  \<open>xj / (xi ^ xj)\<close> into \<open>basis\<close> and throws on a denominator 0; the outer loop adds
  \<open>yi * basis\<close>. No point at all is an error.
\<close>

definition basis_step ::
  "point list \<Rightarrow> nat \<Rightarrow> nat \<Rightarrow> (error + int) option \<Rightarrow> (error + int) option" where
  "basis_step points i j acc =
     (case acc of
        Some (Inr basis) \<Rightarrow>
          if i = j then Some (Inr basis)
          else if ToInt32 (fst (points ! i)) XOR ToInt32 (fst (points ! j)) = 0
               then Some (Inl DuplicateX)
               else (case GF256_div (ToInt32 (fst (points ! j)))
                            (ToInt32 (fst (points ! i)) XOR ToInt32 (fst (points ! j))) of
                       Some (Inr term) \<Rightarrow> Some (Inr (GF256_mul basis term))
                     | other \<Rightarrow> other)
      | other \<Rightarrow> other)"

definition lagrange_basis :: "point list \<Rightarrow> nat \<Rightarrow> (error + int) option" where
  "lagrange_basis points i = fold (basis_step points i) [0 ..< length points] (Some (Inr 1))"

definition lagrange_test_step ::
  "point list \<Rightarrow> nat \<Rightarrow> (error + int) option \<Rightarrow> (error + int) option" where
  "lagrange_test_step points i acc =
     (case acc of
        Some (Inr result) \<Rightarrow>
          (case lagrange_basis points i of
             Some (Inr basis) \<Rightarrow>
               Some (Inr (result XOR GF256_mul (ToInt32 (snd (points ! i))) basis))
           | other \<Rightarrow> other)
      | other \<Rightarrow> other)"

definition lagrangeInterpolation_test :: "point list \<Rightarrow> (error + int) option" where
  "lagrangeInterpolation_test points =
     (if points = [] then Some (Inl NoPoints)
      else fold (lagrange_test_step points) [0 ..< length points] (Some (Inr 0)))"

section \<open>Key derivation of improved-crypto.js\<close>

text \<open>\<open>ToInt32\<close> of an integer: its value in 32-bit two's complement.\<close>

definition wrap32 :: "int \<Rightarrow> int" where
  "wrap32 v = (v + 2 ^ 31) mod 2 ^ 32 - 2 ^ 31"

text \<open>
  The string hash of \<open>fallbackDeriveKey\<close>: for each code unit,
  \<open>hash = ((hash << 5) - hash) + key.charCodeAt(j); hash |= 0\<close>; one round replaces
  \<open>key\<close> by \<open>hash.toString(16)\<close>.
\<close>

definition hash_step :: "int \<Rightarrow> int \<Rightarrow> int" where
  "hash_step hash c = wrap32 (wrap32 (push_bit 5 hash) - hash + c)"

definition hash_round :: "jsstring \<Rightarrow> jsstring" where
  "hash_round key = toString16 (foldl hash_step 0 key)"

text \<open>\<open>parseInt(key.substr((i * 2) % key.length, 2) || '0', 16)\<close>, stored into a byte.\<close>

definition key_byte :: "jsstring \<Rightarrow> nat \<Rightarrow> 8 word" where
  "key_byte key i =
     (let piece = take 2 (drop ((i * 2) mod length key) key)
      in ToUint8 (parseInt16 (if piece = [] then js ''0'' else piece)))"

text \<open>
  What a key derivation resolves to. \<open>derivedKey\<close> is a \<open>CryptoKey\<close>, here the raw key
  it holds, or \<open>null\<close>; \<open>isWebCrypto\<close> is set by the fallback only.
\<close>

record derived_key =
  dk_derivedKey :: "8 word list option"
  dk_key :: jsstring
  dk_salt :: jsstring
  dk_isWebCrypto :: "bool option"

definition fallbackDeriveKey :: "jsstring \<Rightarrow> 8 word list \<Rightarrow> derived_key" where
  "fallbackDeriveKey password salt =
     (let saltHex = bytesToHex salt;
          key = (hash_round ^^ 1000) (password @ saltHex);
          derivedKeyArray = map (key_byte key) [0 ..< 32]
      in \<lparr> dk_derivedKey = None, dk_key = bytesToHex derivedKeyArray, dk_salt = saltHex,
           dk_isWebCrypto = Some False \<rparr>)"

text \<open>
  The Web Crypto API and the other sources of a run: whether \<open>window.crypto\<close> exists and
  has \<open>subtle\<close>; \<open>pbkdf2 password salt\<close>, the raw key that \<open>importKey\<close>, \<open>deriveKey\<close>
  and \<open>exportKey\<close> give (\<open>None\<close> when one of them rejects); \<open>aesGcmEncrypt key iv data\<close>
  (\<open>None\<close> when \<open>encrypt\<close> rejects); the values of \<open>Math.random\<close> scaled to bytes; the
  time as \<open>toISOString\<close> gives it.
\<close>

datatype crypto_support = NoCrypto | NoSubtle | Subtle

record webcrypto =
  support :: crypto_support
  pbkdf2 :: "8 word list \<Rightarrow> 8 word list \<Rightarrow> 8 word list option"
  aesGcmEncrypt :: "8 word list \<Rightarrow> 8 word list \<Rightarrow> 8 word list \<Rightarrow> 8 word list option"
  mathRandom :: "nat \<Rightarrow> 8 word"
  now :: jsstring

text \<open>
  \<open>deriveKeyFromPassword(password, salt)\<close>. Without a salt and without \<open>window.crypto\<close>
  the call of \<open>getRandomValues\<close> throws, the handler calls \<open>fallbackDeriveKey\<close> with the
  salt \<open>null\<close>, and that one rejects with a TypeError.
\<close>

definition deriveKeyFromPassword ::
  "webcrypto \<Rightarrow> platform \<Rightarrow> jsstring \<Rightarrow> 8 word list option \<Rightarrow> error + derived_key" where
  "deriveKeyFromPassword W P password salt =
     (if salt = None \<and> support W = NoCrypto then Inl TypeError
      else let salt = (case salt of None \<Rightarrow> map (getRandomValues P 0) [0 ..< 16] | Some s \<Rightarrow> s);
               passwordBuffer = textEncode P password
           in if support W = Subtle
              then (case pbkdf2 W passwordBuffer salt of
                      Some raw \<Rightarrow>
                        Inr \<lparr> dk_derivedKey = Some raw, dk_key = bytesToHex raw,
                              dk_salt = bytesToHex salt, dk_isWebCrypto = None \<rparr>
                    | None \<Rightarrow> Inr (fallbackDeriveKey password salt))
              else Inr (fallbackDeriveKey password salt))"

section \<open>Key storage of improved-crypto.js\<close>













section \<open>The product of the specification\<close>

text \<open>
  The specification names the product of GF(256): the carry-less product of the two
  bytes, read as polynomials over GF(2), reduced modulo \<open>x^8 + x^4 + x^3 + x + 1\<close>
  (\<open>0x11B\<close>). \<open>clmul n a b\<close> is the carry-less product of \<open>a\<close> with the lowest \<open>n\<close>
  bits of \<open>b\<close>; \<open>poly_reduce n v\<close> clears the bits \<open>n + 7\<close> down to 8 of \<open>v\<close>, the
  highest first, each with a shifted copy of the modulus.
\<close>

fun clmul :: "nat \<Rightarrow> int \<Rightarrow> int \<Rightarrow> int" where
  "clmul 0 a b = 0"
| "clmul (Suc n) a b = clmul n a b XOR (if bit b n then push_bit n a else 0)"

fun poly_reduce :: "nat \<Rightarrow> int \<Rightarrow> int" where
  "poly_reduce 0 v = v"
| "poly_reduce (Suc n) v =
     poly_reduce n (if bit v (n + 8) then v XOR push_bit n 0x11B else v)"

definition reference_mul :: "int \<Rightarrow> int \<Rightarrow> int" where
  "reference_mul a b = poly_reduce 7 (clmul 8 a b)"

section \<open>Notions used in the proofs\<close>

text \<open>A byte; the doubling step inside the loop of \<open>gf256.mul\<close>; the table entry.\<close>

definition byte :: "int \<Rightarrow> bool" where
  "byte a \<longleftrightarrow> 0 \<le> a \<and> a \<le> 255"

definition xtime :: "int \<Rightarrow> int" where
  "xtime a =
     (if a AND 0x80 \<noteq> 0 then (push_bit 1 a AND 0xff) XOR 0x1b else push_bit 1 a AND 0xff)"

definition table_inv :: "int \<Rightarrow> int" where
  "table_inv a = inverseTable ! nat a"

text \<open>Checks on the powers of two below 256, and on the bytes, decided by evaluation.\<close>

definition mul_agree :: "nat \<Rightarrow> nat \<Rightarrow> bool" where
  "mul_agree i j \<longleftrightarrow> gf256_mul (2 ^ i) (2 ^ j) = reference_mul (2 ^ i) (2 ^ j)"

definition mul_agree_row :: "nat \<Rightarrow> bool" where
  "mul_agree_row i = list_all (mul_agree i) [0 ..< 8]"

definition mul_commutes :: "nat \<Rightarrow> nat \<Rightarrow> bool" where
  "mul_commutes i j \<longleftrightarrow> gf256_mul (2 ^ i) (2 ^ j) = gf256_mul (2 ^ j) (2 ^ i)"

definition mul_commutes_row :: "nat \<Rightarrow> bool" where
  "mul_commutes_row i = list_all (mul_commutes i) [0 ..< 8]"

definition mul_shifts :: "nat \<Rightarrow> nat \<Rightarrow> bool" where
  "mul_shifts i j \<longleftrightarrow>
     gf256_mul (gf256_mul (2 ^ i) (2 ^ j)) 2 = gf256_mul (2 ^ i) (gf256_mul (2 ^ j) 2)"

definition mul_shifts_row :: "nat \<Rightarrow> bool" where
  "mul_shifts_row i = list_all (mul_shifts i) [0 ..< 8]"

definition inverse_agrees :: "int \<Rightarrow> bool" where
  "inverse_agrees a \<longleftrightarrow> GF256_inverse a = Some (Inr (table_inv a))"

definition inverse_law :: "int \<Rightarrow> bool" where
  "inverse_law a \<longleftrightarrow> gf256_mul a (table_inv a) = 1 \<and> 0 \<le> table_inv a \<and> table_inv a \<le> 255"

text \<open>
  Points whose \<open>x\<close> is a byte and whose \<open>y\<close> is a byte or \<open>undefined\<close>, which a
  bitwise operator reads as 0.
\<close>

definition byte_points :: "point list \<Rightarrow> bool" where
  "byte_points points \<longleftrightarrow>
     (\<forall>p \<in> set points. \<exists>a y. p = (Some a, y) \<and> byte a \<and> byte (ToInt32 y))"

section \<open>Splitting and combining on examples\<close>

lemma map_result_Inr_all:
  "map_result f vs = Inr rs \<Longrightarrow> v \<in> set vs \<Longrightarrow> \<not> isl (f v)"
  by (induction vs arbitrary: rs) (auto split: sum.splits)

lemma map_result_Inl:
  assumes "v \<in> set vs" and "isl (f v)"
  shows "isl (map_result f vs)"
proof (cases "map_result f vs")
  case (Inl e)
  then show ?thesis by simp
next
  case (Inr rs)
  with assms map_result_Inr_all [of f vs rs v] show ?thesis by simp
qed

text \<open>
  C1. The claim: \<open>combineShares\<close> applied to \<open>threshold\<close> of the shares that
  \<open>createShares\<close> returned gives the secret back. The repository's own \<open>testSimple\<close>
  splits \<open>"A"\<close> into 5 shares with threshold 3 and combines the first 3. Here that
  run, with every random coefficient drawn equal to \<open>0x42\<close>: the shares are as listed and
  the string recovered is \<open>"B"\<close>, the last random coefficient, not \<open>"A"\<close>.
  \<open>evaluatePolynomial\<close> starts Horner's rule from \<open>coeffs[0]\<close>, which makes the secret
  the leading coefficient, and \<open>lagrangeInterpolation\<close> returns the constant one.
\<close>

theorem testSimple_recovers_random_coefficient:
  "createShares (ascii_platform 0x42) (js ''A'') 5 3 =
     Inr [ShareObj (js ''share-0'') (Some (js ''800141'')) (Some (js ''utf-8'')),
          ShareObj (js ''share-1'') (Some (js ''8002d9'')) (Some (js ''utf-8'')),
          ShareObj (js ''share-2'') (Some (js ''8003da'')) (Some (js ''utf-8'')),
          ShareObj (js ''share-3'') (Some (js ''80042d'')) (Some (js ''utf-8'')),
          ShareObj (js ''share-4'') (Some (js ''80052e'')) (Some (js ''utf-8''))]
   \<and> combineShares (ascii_platform 0x42)
         [ShareObj (js ''share-0'') (Some (js ''800141'')) (Some (js ''utf-8'')),
          ShareObj (js ''share-1'') (Some (js ''8002d9'')) (Some (js ''utf-8'')),
          ShareObj (js ''share-2'') (Some (js ''8003da'')) (Some (js ''utf-8''))]
       = Inr (js ''B'')"
  by code_simp




text \<open>
  C3. The claim: a list in which two shares carry the same \<open>x\<close> makes \<open>combineShares\<close>
  fail with a duplicate-point error. \<open>lagrangeInterpolation\<close> of improved-crypto.js has no
  such check: it skips a point whose \<open>y\<close> is 0 before it divides, so the same share
  given twice, with the byte \<open>00\<close>, is combined into a one-character string; with
  another byte the division by zero is what fails. \<open>lagrangeInterpolation\<close> of test.js
  has the check, and throws the error of the duplicate on the same points.
\<close>

theorem combineShares_duplicate_x_returns:
  "combineShares (ascii_platform 0) [ShareStr (js ''800100''), ShareStr (js ''800100'')] = Inr [0]
   \<and> combineShares (ascii_platform 0) [ShareStr (js ''800141''), ShareStr (js ''800141'')]
       = Inl DivisionByZero
   \<and> lagrangeInterpolation [(Some 1, Some 0), (Some 1, Some 0)] = Inr 0
   \<and> lagrangeInterpolation_test [(Some 1, Some 0), (Some 1, Some 0)] = Some (Inl DuplicateX)"
  by code_simp

text \<open>
  C6. The claim: decoding a share string fails with a format error when the string does
  not start with \<open>80\<close> or has odd length, and \<open>combineShares\<close> returns no secret from
  such a share. The second part fails: \<open>hexToBytes\<close> gives the empty array for text of
  odd length, so \<open>80012\<close> alone is combined into the empty string, and \<open>80024\<close> after
  \<open>800141\<close> into a string of one character.
\<close>

theorem combineShares_odd_length_returns:
  "odd (length (js ''80012'')) \<and> odd (length (js ''80024''))
   \<and> combineShares (ascii_platform 0) [ShareStr (js ''80012'')] = Inr []
   \<and> combineShares (ascii_platform 0) [ShareStr (js ''800141''), ShareStr (js ''80024'')]
       = Inr (js ''~'')"
  by code_simp

lemma hexToBytes_odd: "odd (length hex) \<Longrightarrow> hexToBytes hex = Inr []"
  by (simp add: hexToBytes_def odd_iff_mod_2_eq_one)

lemma hexToBytes_not_format: "hexToBytes hex \<noteq> Inl InvalidShareFormat"
  by (simp add: hexToBytes_def)

lemma drop4_odd:
  assumes "odd (length v)"
  shows "drop 4 v = [] \<or> odd (length (drop 4 v))"
proof (cases "length v \<le> 4")
  case True
  then show ?thesis by simp
next
  case False
  then have "length (drop 4 v) + 4 = length v" by simp
  with assms have "odd (length (drop 4 v) + 4)" by simp
  then show ?thesis by simp
qed

lemma decodeShare_odd:
  assumes "take 2 v = js ''80''" and "odd (length v)"
  shows "decodeShare (Some v) = Inr \<lparr>dec_x = parseInt16 (take 2 (drop 2 v)), dec_y = []\<rparr>"
proof -
  have "hexToBytes (drop 4 v) = Inr []"
    using drop4_odd [OF assms(2)] hexToBytes_odd [of "drop 4 v"]
    by (auto simp: hexToBytes_def)
  with assms(1) show ?thesis by (simp add: decodeShare_def)
qed

lemma decodeShare_format_iff:
  "decodeShare (Some v) = Inl InvalidShareFormat \<longleftrightarrow> take 2 v \<noteq> js ''80''"
  using hexToBytes_not_format [of "drop 4 v"]
  by (auto simp: decodeShare_def split: sum.splits)

lemma combineShares_bad_share:
  assumes "s \<in> set shares" and "isl (decodeShare (shareValue s))"
  shows "isl (combineShares P shares)"
proof -
  have "shareValue s \<in> set (map shareValue shares)" using assms(1) by simp
  then have "isl (map_result decodeShare (map shareValue shares))"
    using assms(2) by (rule map_result_Inl)
  then show ?thesis
    by (cases shares) (auto simp: combineShares_def split: sum.splits)
qed

text \<open>
  C6, amended. Decoding a share string fails with the format error exactly when the
  string does not start with \<open>80\<close>, and \<open>combineShares\<close> returns no secret from a list
  that holds such a string; a string of odd length that starts with \<open>80\<close> is decoded
  without an error, to a share whose \<open>y\<close> is empty.
\<close>

theorem decodeShare_marker_and_odd_length:
  "(decodeShare (Some v) = Inl InvalidShareFormat \<longleftrightarrow> take 2 v \<noteq> js ''80'')
   \<and> (s \<in> set shares \<and> shareValue s = Some v \<and> take 2 v \<noteq> js ''80'' \<longrightarrow>
        isl (combineShares P shares))
   \<and> (take 2 v = js ''80'' \<and> odd (length v) \<longrightarrow>
        decodeShare (Some v) = Inr \<lparr>dec_x = parseInt16 (take 2 (drop 2 v)), dec_y = []\<rparr>)"
proof (intro conjI impI)
  show "decodeShare (Some v) = Inl InvalidShareFormat \<longleftrightarrow> take 2 v \<noteq> js ''80''"
    by (rule decodeShare_format_iff)
next
  assume h: "s \<in> set shares \<and> shareValue s = Some v \<and> take 2 v \<noteq> js ''80''"
  then have "decodeShare (shareValue s) = Inl InvalidShareFormat"
    by (simp add: decodeShare_format_iff)
  then have "isl (decodeShare (shareValue s))" by simp
  with h show "isl (combineShares P shares)" by (blast intro: combineShares_bad_share)
next
  assume "take 2 v = js ''80'' \<and> odd (length v)"
  then show "decodeShare (Some v) = Inr \<lparr>dec_x = parseInt16 (take 2 (drop 2 v)), dec_y = []\<rparr>"
    by (simp add: decodeShare_odd)
qed

theorem decodeShare_marker_and_odd_length_witness:
  "decodeShare (Some (js ''810141'')) = Inl InvalidShareFormat
   \<and> isl (combineShares (ascii_platform 0) [ShareStr (js ''800141''), ShareStr (js ''810141'')])
   \<and> decodeShare (Some (js ''80012'')) = Inr \<lparr>dec_x = Some 1, dec_y = []\<rparr>"
proof -
  have m: "take 2 (js ''810141'') \<noteq> js ''80''" by (simp add: js_def)
  have i: "ShareStr (js ''810141'') \<in> set [ShareStr (js ''800141''), ShareStr (js ''810141'')]"
    by simp
  have v: "shareValue (ShareStr (js ''810141'')) = Some (js ''810141'')" by simp
  have o: "take 2 (js ''80012'') = js ''80'' \<and> odd (length (js ''80012''))"
    by (simp add: js_def)
  have x: "parseInt16 (take 2 (drop 2 (js ''80012''))) = Some 1" by code_simp
  show ?thesis
    using decodeShare_marker_and_odd_length [where v = "js ''810141''"
            and s = "ShareStr (js ''810141'')" and P = "ascii_platform 0"
            and shares = "[ShareStr (js ''800141''), ShareStr (js ''810141'')]"]
          decodeShare_marker_and_odd_length [where v = "js ''80012''"]
          m i v o x
    by simp
qed

text \<open>
  C10. \<open>combineShares\<close> takes the encoding from the first element of its argument
  alone, \<open>utf-8\<close> when that element has none, and decodes the bytes it reconstructed with
  it: two lists with the same first element and the same share values after it give the
  same result, whatever the encodings of the later elements are; a result is what the
  decoder of the first element's encoding returns; and a first element without an encoding
  gives what the same element with \<open>utf-8\<close> gives. A result from a first element whose
  \<open>encoding\<close> is a string that is not empty is what the decoder of that very string
  returns. The reconstruction depends on the share values alone: it throws, or gives
  bytes, the same on every platform and for every list with these share values, and
  \<open>combineShares\<close> then returns those bytes decoded with the encoding of the first
  element of the list it was given, or throws when the decoder refuses the encoding.
\<close>

theorem combineShares_encoding_of_first:
  "(map shareValue others = map shareValue others' \<longrightarrow>
      combineShares P (first # others) = combineShares P (first # others'))
   \<and> (combineShares P (first # others) = Inr secret \<longrightarrow>
        (\<exists>bytes. textDecode P (shareEncoding first) bytes = Some secret))
   \<and> combineShares P (ShareObj i v None # others)
       = combineShares P (ShareObj i v (Some (js ''utf-8'')) # others)
   \<and> (l \<noteq> [] \<and> combineShares P (ShareObj i v (Some l) # others) = Inr secret \<longrightarrow>
        (\<exists>bytes. textDecode P l bytes = Some secret))
   \<and> (\<exists>r. \<forall>P' first' others'.
          map shareValue (first' # others') = map shareValue (first # others) \<longrightarrow>
          combineShares P' (first' # others') =
            (case r of
               Inl e \<Rightarrow> Inl e
             | Inr bytes \<Rightarrow>
                 (case textDecode P' (shareEncoding first') bytes of
                    None \<Rightarrow> Inl RangeError
                  | Some s \<Rightarrow> Inr s)))"
proof (intro conjI impI)
  assume "map shareValue others = map shareValue others'"
  then show "combineShares P (first # others) = combineShares P (first # others')"
    by (simp add: combineShares_def)
next
  assume "combineShares P (first # others) = Inr secret"
  then show "\<exists>bytes. textDecode P (shareEncoding first) bytes = Some secret"
    by (auto simp: combineShares_def split: sum.splits option.splits)
next
  have e: "shareEncoding (ShareObj i v None) = shareEncoding (ShareObj i v (Some (js ''utf-8'')))"
    by (simp add: js_def)
  have m: "map shareValue (ShareObj i v None # others)
      = map shareValue (ShareObj i v (Some (js ''utf-8'')) # others)"
    by simp
  show "combineShares P (ShareObj i v None # others)
      = combineShares P (ShareObj i v (Some (js ''utf-8'')) # others)"
    unfolding combineShares_def list.case e m by (rule refl)
next
  assume h: "l \<noteq> [] \<and> combineShares P (ShareObj i v (Some l) # others) = Inr secret"
  then have "shareEncoding (ShareObj i v (Some l)) = l" by simp
  moreover from h have "\<exists>bytes. textDecode P (shareEncoding (ShareObj i v (Some l))) bytes
      = Some secret"
    by (auto simp: combineShares_def split: sum.splits option.splits)
  ultimately show "\<exists>bytes. textDecode P l bytes = Some secret" by simp
next
  let ?r = "case map_result decodeShare (map shareValue (first # others)) of
      Inl e \<Rightarrow> Inl e
    | Inr decodedShares \<Rightarrow>
        (case map_result (interpolate_byte decodedShares)
                         [0 ..< length (dec_y (hd decodedShares))] of
           Inl e \<Rightarrow> Inl e
         | Inr result \<Rightarrow> Inr (map word_of_int result :: 8 word list))"
  have "combineShares P' (first' # others') =
      (case ?r of
         Inl e \<Rightarrow> Inl e
       | Inr bytes \<Rightarrow>
           (case textDecode P' (shareEncoding first') bytes of
              None \<Rightarrow> Inl RangeError
            | Some s \<Rightarrow> Inr s))"
    if m: "map shareValue (first' # others') = map shareValue (first # others)"
    for P' first' others'
    unfolding combineShares_def list.case m
    by (simp split: sum.splits)
  then show "\<exists>r. \<forall>P' first' others'.
          map shareValue (first' # others') = map shareValue (first # others) \<longrightarrow>
          combineShares P' (first' # others') =
            (case r of
               Inl e \<Rightarrow> Inl e
             | Inr bytes \<Rightarrow>
                 (case textDecode P' (shareEncoding first') bytes of
                    None \<Rightarrow> Inl RangeError
                  | Some s \<Rightarrow> Inr s))"
    by blast
qed

theorem combineShares_encoding_of_first_witness:
  "combineShares (ascii_platform 0)
      [ShareObj (js ''a'') (Some (js ''800103'')) (Some (js ''utf-8'')),
       ShareObj (js ''b'') (Some (js ''8002c0'')) (Some (js ''utf-16le''))]
     = Inr (js ''B'')
   \<and> (\<exists>bytes. textDecode (ascii_platform 0) (js ''utf-8'') bytes = Some (js ''B''))
   \<and> combineShares (ascii_platform 0)
      [ShareObj (js ''a'') (Some (js ''800103'')) (Some (js ''hex'')),
       ShareObj (js ''b'') (Some (js ''8002c0'')) (Some (js ''utf-8''))]
     = Inl RangeError"
proof -
  let ?P = "ascii_platform 0"
  let ?first = "ShareObj (js ''a'') (Some (js ''800103'')) (Some (js ''utf-8''))"
  let ?first' = "ShareObj (js ''a'') (Some (js ''800103'')) (Some (js ''hex''))"
  let ?later = "ShareObj (js ''b'') (Some (js ''8002c0'')) (Some (js ''utf-8''))"
  let ?later' = "ShareObj (js ''b'') (Some (js ''8002c0'')) (Some (js ''utf-16le''))"
  have same: "map shareValue [?later] = map shareValue [?later']" by simp
  have run: "combineShares ?P [?first, ?later] = Inr (js ''B'')" by code_simp
  have enc: "shareEncoding ?first = js ''utf-8''" by (simp add: js_def)
  have enc': "shareEncoding ?first' = js ''hex''" by (simp add: js_def)
  have tag: "js ''utf-8'' \<noteq> []" by (simp add: js_def)
  have other: "js ''hex'' \<noteq> js ''utf-8''" by (simp add: js_def)
  note inst = combineShares_encoding_of_first [where P = "?P" and first = ?first
            and others = "[?later]" and others' = "[?later']" and secret = "js ''B''"
            and i = "js ''a''" and v = "Some (js ''800103'')" and l = "js ''utf-8''"]
  from inst same run have one: "combineShares ?P [?first, ?later'] = Inr (js ''B'')"
    by simp
  from inst tag run have two: "\<exists>bytes. textDecode ?P (js ''utf-8'') bytes = Some (js ''B'')"
    by blast
  from inst obtain r where r: "\<And>P' first' others'.
      map shareValue (first' # others') = map shareValue [?first, ?later] \<Longrightarrow>
      combineShares P' (first' # others') =
        (case r of
           Inl e \<Rightarrow> Inl e
         | Inr bytes \<Rightarrow>
             (case textDecode P' (shareEncoding first') bytes of
                None \<Rightarrow> Inl RangeError
              | Some s \<Rightarrow> Inr s))"
    by blast
  have "combineShares ?P [?first, ?later] =
      (case r of
         Inl e \<Rightarrow> Inl e
       | Inr bytes \<Rightarrow>
           (case textDecode ?P (shareEncoding ?first) bytes of
              None \<Rightarrow> Inl RangeError
            | Some s \<Rightarrow> Inr s))"
    by (rule r) simp
  with run obtain bytes where b: "r = Inr bytes" by (cases r) simp_all
  have "combineShares ?P [?first', ?later] =
      (case r of
         Inl e \<Rightarrow> Inl e
       | Inr bytes \<Rightarrow>
           (case textDecode ?P (shareEncoding ?first') bytes of
              None \<Rightarrow> Inl RangeError
            | Some s \<Rightarrow> Inr s))"
    by (rule r) simp
  then have three: "combineShares ?P [?first', ?later] = Inl RangeError"
    unfolding b enc' using other by (simp add: ascii_platform_def)
  from one two three show ?thesis by blast
qed

section \<open>The multiplication of \<open>gf256\<close> is linear in each argument\<close>

lemma mul_loop_Suc:
  "mul_loop (Suc n) p a b =
     mul_loop n (if odd b then p XOR a else p) (xtime a) (drop_bit 1 b)"
  by (simp add: Let_def xtime_def and_one_eq mod_2_eq_odd)

lemma high_bit_iff: "(a AND 0x80 \<noteq> 0) = bit (a::int) 7"
  using and_exp_eq_0_iff_not_bit [of a 7] by simp

lemma xtime_alt: "xtime a = (push_bit 1 a AND 0xff) XOR (if bit a 7 then 0x1b else 0)"
  by (simp add: xtime_def high_bit_iff)

lemma xtime_xor: "xtime (a XOR b) = xtime a XOR xtime b"
  unfolding xtime_alt bit_xor_iff push_bit_xor bit.conj_xor_distrib2
  by (cases "bit a 7"; cases "bit b 7"; simp add: ac_simps)

lemma byte_xor: "byte a \<Longrightarrow> byte b \<Longrightarrow> byte (a XOR b)"
  using XOR_upper [of a 8 b] by (simp add: byte_def)

lemma byte_mask: "byte (a AND 0xff)"
  using AND_upper2 [of 255 a] by (simp add: byte_def)

lemma byte_numerals: "byte 0" "byte 1" "byte 0x1b"
  by (simp_all add: byte_def)

lemma byte_xtime: "byte (xtime a)"
  by (simp add: xtime_def byte_mask byte_xor byte_numerals)

lemma mul_loop_acc: "mul_loop n p a b = p XOR mul_loop n 0 a b"
proof (induction n arbitrary: p a b)
  case 0
  show ?case by simp
next
  case (Suc n)
  show ?case
    unfolding mul_loop_Suc
    using Suc [of "p XOR a" "xtime a" "drop_bit 1 b"] Suc [of a "xtime a" "drop_bit 1 b"]
      Suc [of p "xtime a" "drop_bit 1 b"]
    by (simp add: ac_simps)
qed

lemma mul_loop_xor_left:
  "mul_loop n 0 (a XOR a') b = mul_loop n 0 a b XOR mul_loop n 0 a' b"
proof (induction n arbitrary: a a' b)
  case 0
  show ?case by simp
next
  case (Suc n)
  show ?case
    unfolding mul_loop_Suc xtime_xor
    using mul_loop_acc [of n "a XOR a'" "xtime a XOR xtime a'" "drop_bit 1 b"]
      mul_loop_acc [of n a "xtime a" "drop_bit 1 b"]
      mul_loop_acc [of n a' "xtime a'" "drop_bit 1 b"]
      Suc [of "xtime a" "xtime a'" "drop_bit 1 b"]
    by (simp add: ac_simps)
qed

lemma mul_loop_xor_right:
  "mul_loop n 0 a (b XOR b') = mul_loop n 0 a b XOR mul_loop n 0 a b'"
proof (induction n arbitrary: a b b')
  case 0
  show ?case by simp
next
  case (Suc n)
  show ?case
    unfolding mul_loop_Suc drop_bit_xor
    using mul_loop_acc [of n a "xtime a" "drop_bit 1 b XOR drop_bit 1 b'"]
      mul_loop_acc [of n a "xtime a" "drop_bit 1 b"]
      mul_loop_acc [of n a "xtime a" "drop_bit 1 b'"]
      Suc [of "xtime a" "drop_bit 1 b" "drop_bit 1 b'"]
    by (auto simp: even_xor_iff ac_simps)
qed

lemma byte_mul_loop: "byte p \<Longrightarrow> byte a \<Longrightarrow> byte (mul_loop n p a b)"
proof (induction n arbitrary: p a b)
  case 0
  then show ?case by simp
next
  case (Suc n)
  then show ?case
    unfolding mul_loop_Suc by (simp add: byte_xor byte_xtime)
qed

lemma gf256_mul_xor_left: "gf256_mul (a XOR a') b = gf256_mul a b XOR gf256_mul a' b"
  by (simp add: gf256_mul_def mul_loop_xor_left)

lemma gf256_mul_xor_right: "gf256_mul a (b XOR b') = gf256_mul a b XOR gf256_mul a b'"
  by (simp add: gf256_mul_def mul_loop_xor_right)

lemma byte_gf256_mul: "byte a \<Longrightarrow> byte (gf256_mul a b)"
  by (simp add: gf256_mul_def byte_mul_loop byte_numerals)

lemma take_bit_Suc_xor:
  "take_bit (Suc n) (a::int) = take_bit n a XOR (if bit a n then 2 ^ n else 0)"
  by (rule bit_eqI) (auto simp: bit_simps less_Suc_eq)

lemma byte_induct [consumes 1, case_names zero power xor]:
  assumes "byte a" and z: "P 0" and p: "\<And>i. i < 8 \<Longrightarrow> P (2 ^ i)"
    and x: "\<And>u v. P u \<Longrightarrow> P v \<Longrightarrow> P (u XOR v)"
  shows "P a"
proof -
  have "n \<le> 8 \<Longrightarrow> P (take_bit n a)" for n
  proof (induction n)
    case 0
    show ?case using z by simp
  next
    case (Suc n)
    then have "P (take_bit n a)" and "n < 8" by simp_all
    then show ?case
      unfolding take_bit_Suc_xor using p [of n] x [of "take_bit n a" "2 ^ n"] by simp
  qed
  from this [of 8] have "P (take_bit 8 a)" by simp
  moreover have "take_bit 8 a = a"
    using assms(1) by (simp add: take_bit_int_eq_self_iff byte_def)
  ultimately show ?thesis by simp
qed

lemma clmul_xor_left: "clmul n (a XOR a') b = clmul n a b XOR clmul n a' b"
  by (induction n) (simp_all add: ac_simps)

lemma clmul_xor_right: "clmul n a (b XOR b') = clmul n a b XOR clmul n a b'"
  by (induction n) (auto simp: bit_xor_iff ac_simps)

lemma poly_reduce_xor: "poly_reduce n (v XOR w) = poly_reduce n v XOR poly_reduce n w"
proof (induction n arbitrary: v w)
  case 0
  show ?case by simp
next
  case (Suc n)
  show ?case
    using Suc [of "v XOR push_bit n 0x11B" "w XOR push_bit n 0x11B"]
      Suc [of "v XOR push_bit n 0x11B" w] Suc [of v "w XOR push_bit n 0x11B"] Suc [of v w]
    by (cases "bit v (n + 8)"; cases "bit w (n + 8)"; simp add: bit_xor_iff ac_simps)
qed

lemma reference_mul_xor_left:
  "reference_mul (a XOR a') b = reference_mul a b XOR reference_mul a' b"
  by (simp add: reference_mul_def clmul_xor_left poly_reduce_xor)

lemma reference_mul_xor_right:
  "reference_mul a (b XOR b') = reference_mul a b XOR reference_mul a b'"
  by (simp add: reference_mul_def clmul_xor_right poly_reduce_xor)

lemma xor_additive_zero:
  assumes "\<And>u v. f (u XOR v) = f u XOR (f v :: int)"
  shows "f (0::int) = 0"
  using assms [of 0 0] by simp

lemma gf256_mul_zero_left: "gf256_mul 0 b = 0"
  by (rule xor_additive_zero [of "\<lambda>a. gf256_mul a b"]) (rule gf256_mul_xor_left)

lemma gf256_mul_zero_right: "gf256_mul a 0 = 0"
  by (rule xor_additive_zero [of "gf256_mul a"]) (rule gf256_mul_xor_right)

lemma reference_mul_zero_left: "reference_mul 0 b = 0"
  by (rule xor_additive_zero [of "\<lambda>a. reference_mul a b"]) (rule reference_mul_xor_left)

lemma reference_mul_zero_right: "reference_mul a 0 = 0"
  by (rule xor_additive_zero [of "reference_mul a"]) (rule reference_mul_xor_right)

lemma mul_agree_all: "list_all mul_agree_row [0 ..< 8]"
  by code_simp

lemma mul_agree_powers: "i < 8 \<Longrightarrow> j < 8 \<Longrightarrow> mul_agree i j"
  using mul_agree_all by (simp add: list_all_iff mul_agree_row_def)

lemma gf256_mul_eq_reference:
  assumes "byte a" and "byte b"
  shows "gf256_mul a b = reference_mul a b"
  using assms(1)
proof (induction a rule: byte_induct)
  case zero
  show ?case by (simp add: gf256_mul_zero_left reference_mul_zero_left)
next
  case (power i)
  from assms(2) show ?case
  proof (induction b rule: byte_induct)
    case zero
    show ?case by (simp add: gf256_mul_zero_right reference_mul_zero_right)
  next
    case (power j)
    with \<open>i < 8\<close> show ?case using mul_agree_powers [of i j] by (simp add: mul_agree_def)
  next
    case (xor u v)
    then show ?case by (simp add: gf256_mul_xor_right reference_mul_xor_right)
  qed
next
  case (xor u v)
  then show ?case by (simp add: gf256_mul_xor_left reference_mul_xor_left)
qed

section \<open>The multiplication of \<open>gf256\<close> on bytes: commutative and associative\<close>

lemma list_all_upt8: "list_all P [0 ..< 8] \<Longrightarrow> i < 8 \<Longrightarrow> P i"
  by (simp add: list_all_iff)

lemma mul_commutes_all: "list_all mul_commutes_row [0 ..< 8]"
  by code_simp

lemma mul_shifts_all: "list_all mul_shifts_row [0 ..< 8]"
  by code_simp

lemma mul_commutes_powers: "i < 8 \<Longrightarrow> j < 8 \<Longrightarrow> mul_commutes i j"
  using list_all_upt8 [OF list_all_upt8 [OF mul_commutes_all, unfolded mul_commutes_row_def]] .

lemma mul_shifts_powers: "i < 8 \<Longrightarrow> j < 8 \<Longrightarrow> mul_shifts i j"
  using list_all_upt8 [OF list_all_upt8 [OF mul_shifts_all, unfolded mul_shifts_row_def]] .

lemma gf256_mul_commute:
  assumes "byte a" and "byte b"
  shows "gf256_mul a b = gf256_mul b a"
  using assms(1)
proof (induction a rule: byte_induct)
  case zero
  show ?case by (simp add: gf256_mul_zero_left gf256_mul_zero_right)
next
  case (power i)
  from assms(2) show ?case
  proof (induction b rule: byte_induct)
    case zero
    show ?case by (simp add: gf256_mul_zero_left gf256_mul_zero_right)
  next
    case (power j)
    with \<open>i < 8\<close> show ?case using mul_commutes_powers [of i j] by (simp add: mul_commutes_def)
  next
    case (xor u v)
    then show ?case by (simp add: gf256_mul_xor_left gf256_mul_xor_right)
  qed
next
  case (xor u v)
  then show ?case by (simp add: gf256_mul_xor_left gf256_mul_xor_right)
qed

lemma mul_loop_zero_right: "mul_loop n p a 0 = p"
  by (induction n arbitrary: p a) (simp_all add: mul_loop_Suc)

lemma gf256_mul_one_right: "gf256_mul a 1 = a"
proof -
  have "mul_loop (Suc 7) 0 a 1 = a"
    unfolding mul_loop_Suc by (simp add: mul_loop_zero_right)
  then show ?thesis by (simp add: gf256_mul_def)
qed

lemma gf256_mul_two: "gf256_mul a 2 = xtime a"
proof -
  have "mul_loop (Suc (Suc 6)) 0 a 2 = xtime a"
    unfolding mul_loop_Suc by (simp add: mul_loop_zero_right)
  then show ?thesis by (simp add: gf256_mul_def)
qed

lemma gf256_mul_one_left: "byte a \<Longrightarrow> gf256_mul 1 a = a"
  using gf256_mul_commute [of 1 a] by (simp add: byte_numerals gf256_mul_one_right)

lemma gf256_mul_shift:
  assumes "byte a" and "byte b"
  shows "gf256_mul (gf256_mul a b) 2 = gf256_mul a (gf256_mul b 2)"
  using assms(1)
proof (induction a rule: byte_induct)
  case zero
  show ?case by (simp add: gf256_mul_zero_left)
next
  case (power i)
  from assms(2) show ?case
  proof (induction b rule: byte_induct)
    case zero
    show ?case by (simp add: gf256_mul_zero_left gf256_mul_zero_right)
  next
    case (power j)
    with \<open>i < 8\<close> show ?case using mul_shifts_powers [of i j] by (simp add: mul_shifts_def)
  next
    case (xor u v)
    then show ?case by (simp add: gf256_mul_xor_left gf256_mul_xor_right)
  qed
next
  case (xor u v)
  then show ?case by (simp add: gf256_mul_xor_left gf256_mul_xor_right)
qed

text \<open>
  When the products with \<open>c\<close> and those with \<open>d\<close> as the last factor associate, so
  do the products with \<open>gf256_mul c d\<close> as the last factor.
\<close>

lemma assoc_at_mul:
  assumes c: "byte c"
    and ac: "\<And>a b. byte a \<Longrightarrow> byte b \<Longrightarrow> gf256_mul (gf256_mul a b) c = gf256_mul a (gf256_mul b c)"
    and ad: "\<And>a b. byte a \<Longrightarrow> byte b \<Longrightarrow> gf256_mul (gf256_mul a b) d = gf256_mul a (gf256_mul b d)"
    and a: "byte a" and b: "byte b"
  shows "gf256_mul (gf256_mul a b) (gf256_mul c d) = gf256_mul a (gf256_mul b (gf256_mul c d))"
proof -
  have ab: "byte (gf256_mul a b)" and bc: "byte (gf256_mul b c)"
    using a b by (simp_all add: byte_gf256_mul)
  have "gf256_mul (gf256_mul a b) (gf256_mul c d) = gf256_mul (gf256_mul (gf256_mul a b) c) d"
    using ad [OF ab c] by simp
  also have "\<dots> = gf256_mul (gf256_mul a (gf256_mul b c)) d"
    using ac [OF a b] by simp
  also have "\<dots> = gf256_mul a (gf256_mul (gf256_mul b c) d)"
    using ad [OF a bc] .
  also have "\<dots> = gf256_mul a (gf256_mul b (gf256_mul c d))"
    using ad [OF b c] by simp
  finally show ?thesis .
qed

lemma byte_power: "i < 8 \<Longrightarrow> byte (2 ^ i)"
proof -
  assume "i < 8"
  then have "(2::int) ^ i \<le> 2 ^ 7" by (intro power_increasing) simp_all
  then show ?thesis by (simp add: byte_def)
qed

lemma gf256_mul_two_power: "i < 7 \<Longrightarrow> gf256_mul (2 ^ i) 2 = 2 ^ Suc i"
proof -
  assume "i < 7"
  then have "i = 0 \<or> i = 1 \<or> i = 2 \<or> i = 3 \<or> i = 4 \<or> i = 5 \<or> i = 6" by arith
  then show ?thesis
    unfolding gf256_mul_two by (elim disjE) (simp_all add: xtime_def)
qed

lemma gf256_mul_assoc_power:
  assumes "i < 8" and "byte a" and "byte b"
  shows "gf256_mul (gf256_mul a b) (2 ^ i) = gf256_mul a (gf256_mul b (2 ^ i))"
  using assms
proof (induction i arbitrary: a b)
  case 0
  then show ?case by (simp add: gf256_mul_one_right)
next
  case (Suc i)
  then have i: "i < 7" by simp
  have p: "byte (2 ^ i)" using i by (simp add: byte_power)
  have "gf256_mul (gf256_mul a b) (gf256_mul (2 ^ i) 2)
      = gf256_mul a (gf256_mul b (gf256_mul (2 ^ i) 2))"
    using p _ _ Suc.prems(2,3)
  proof (rule assoc_at_mul)
    show "gf256_mul (gf256_mul a b) (2 ^ i) = gf256_mul a (gf256_mul b (2 ^ i))"
      if "byte a" "byte b" for a b
      using Suc.IH [of a b] i that by simp
    show "gf256_mul (gf256_mul a b) 2 = gf256_mul a (gf256_mul b 2)"
      if "byte a" "byte b" for a b
      using that by (rule gf256_mul_shift)
  qed
  then show ?case using gf256_mul_two_power [OF i] by simp
qed

lemma gf256_mul_assoc:
  assumes "byte a" and "byte b" and "byte c"
  shows "gf256_mul (gf256_mul a b) c = gf256_mul a (gf256_mul b c)"
  using assms(3)
proof (induction c rule: byte_induct)
  case zero
  show ?case by (simp add: gf256_mul_zero_right)
next
  case (power i)
  then show ?case using assms(1,2) by (simp add: gf256_mul_assoc_power)
next
  case (xor u v)
  then show ?case by (simp add: gf256_mul_xor_right)
qed

lemma byte_and_ff: "byte a \<Longrightarrow> a AND 0xff = a"
  using take_bit_int_eq_self [of a 8] by (simp add: take_bit_eq_mask byte_def mask_eq_exp_minus_1)

lemma GF256_mul_eq: "byte a \<Longrightarrow> byte b \<Longrightarrow> GF256_mul a b = gf256_mul a b"
  using gf256_mul_zero_left [of b] gf256_mul_zero_right [of a]
  by (auto simp: GF256_mul_def byte_and_ff Let_def gf256_mul_def)

text \<open>
  C5. For all bytes \<open>a\<close> and \<open>b\<close>, \<open>gf256.mul(a, b)\<close> is the product of the
  specification (the carry-less product reduced modulo \<open>0x11B\<close>), it is what
  \<open>GF256.mul\<close> of test.js returns, it lies between 0 and 255, and it is 0 when \<open>a\<close>
  or \<open>b\<close> is 0.
\<close>

theorem gf256_mul_is_field_product:
  "0 \<le> a \<and> a \<le> 255 \<and> 0 \<le> b \<and> b \<le> 255 \<longrightarrow>
     gf256_mul a b = reference_mul a b \<and> gf256_mul a b = GF256_mul a b
     \<and> 0 \<le> gf256_mul a b \<and> gf256_mul a b \<le> 255
     \<and> gf256_mul 0 b = 0 \<and> gf256_mul a 0 = 0"
proof
  assume "0 \<le> a \<and> a \<le> 255 \<and> 0 \<le> b \<and> b \<le> 255"
  then have a: "byte a" and b: "byte b" by (simp_all add: byte_def)
  have "gf256_mul a b = reference_mul a b" using a b by (rule gf256_mul_eq_reference)
  moreover have "gf256_mul a b = GF256_mul a b" using GF256_mul_eq [OF a b] by simp
  moreover have "0 \<le> gf256_mul a b \<and> gf256_mul a b \<le> 255"
    using byte_gf256_mul [OF a, of b] by (simp add: byte_def)
  moreover have "gf256_mul 0 b = 0 \<and> gf256_mul a 0 = 0"
    by (simp add: gf256_mul_zero_left gf256_mul_zero_right)
  ultimately show "gf256_mul a b = reference_mul a b \<and> gf256_mul a b = GF256_mul a b
      \<and> 0 \<le> gf256_mul a b \<and> gf256_mul a b \<le> 255
      \<and> gf256_mul 0 b = 0 \<and> gf256_mul a 0 = 0"
    by blast
qed

theorem gf256_mul_is_field_product_witness:
  "gf256_mul 0x53 0xCA = 1 \<and> reference_mul 0x53 0xCA = 1 \<and> GF256_mul 0x53 0xCA = 1
   \<and> gf256_mul 0 0xCA = 0 \<and> gf256_mul 0x53 0 = 0"
proof -
  have "gf256_mul 0x53 0xCA = 1" by code_simp
  then show ?thesis
    using gf256_mul_is_field_product [of "0x53" "0xCA"] by simp
qed

section \<open>The inverse table and the Euclidean inverse\<close>

lemma inverse_law_all: "list_all inverse_law [1 .. 255]"
  by code_simp

lemma inverse_agrees_1: "list_all inverse_agrees [1 .. 64]"
  by code_simp

lemma inverse_agrees_2: "list_all inverse_agrees [65 .. 128]"
  by code_simp

lemma inverse_agrees_3: "list_all inverse_agrees [129 .. 192]"
  by code_simp

lemma inverse_agrees_4: "list_all inverse_agrees [193 .. 255]"
  by code_simp

lemma length_inverseTable: "length inverseTable = 256"
  by (simp add: inverseTable_def)

lemma inverseTable_at_byte: "byte a \<Longrightarrow> inverseTable_at a = Some (table_inv a)"
  by (simp add: inverseTable_at_def table_inv_def length_inverseTable byte_def)

lemma list_all_uptoD: "list_all P [i .. j] \<Longrightarrow> i \<le> a \<Longrightarrow> a \<le> j \<Longrightarrow> P a"
  unfolding list_all_iff set_upto by simp

lemma table_inv_law:
  assumes "byte a" and "a \<noteq> 0"
  shows "gf256_mul a (table_inv a) = 1" and "byte (table_inv a)"
proof -
  have "1 \<le> a" and "a \<le> 255" using assms by (simp_all add: byte_def)
  then have "inverse_law a" by (rule list_all_uptoD [OF inverse_law_all])
  then show "gf256_mul a (table_inv a) = 1" and "byte (table_inv a)"
    by (simp_all add: inverse_law_def byte_def)
qed

lemma GF256_inverse_table:
  assumes "byte a" and "a \<noteq> 0"
  shows "GF256_inverse a = Some (Inr (table_inv a))"
proof -
  have "1 \<le> a" and "a \<le> 255" using assms by (simp_all add: byte_def)
  then consider "1 \<le> a" "a \<le> 64" | "65 \<le> a" "a \<le> 128" | "129 \<le> a" "a \<le> 192"
    | "193 \<le> a" "a \<le> 255"
    by linarith
  then have "inverse_agrees a"
  proof cases
    case 1
    then show ?thesis by (rule list_all_uptoD [OF inverse_agrees_1])
  next
    case 2
    then show ?thesis by (rule list_all_uptoD [OF inverse_agrees_2])
  next
    case 3
    then show ?thesis by (rule list_all_uptoD [OF inverse_agrees_3])
  next
    case 4
    then show ?thesis by (rule list_all_uptoD [OF inverse_agrees_4])
  qed
  then show ?thesis by (simp add: inverse_agrees_def)
qed

text \<open>
  C4. For every byte \<open>a\<close> from 1 to 255 the table of \<open>gf256.div\<close>, which has 256
  entries, holds at \<open>a\<close> the value that \<open>GF256.inverse(a)\<close> of test.js returns: the
  extended Euclidean algorithm ends, without an error, with that value.
\<close>

theorem inverse_table_agrees_with_euclid:
  "length inverseTable = 256
   \<and> (1 \<le> a \<and> a \<le> 255 \<longrightarrow>
        inverseTable_at a = Some (inverseTable ! nat a)
        \<and> GF256_inverse a = Some (Inr (inverseTable ! nat a)))"
proof (intro conjI impI)
  show "length inverseTable = 256" by (rule length_inverseTable)
next
  assume "1 \<le> a \<and> a \<le> 255"
  then have a: "byte a" "a \<noteq> 0" by (simp_all add: byte_def)
  show "inverseTable_at a = Some (inverseTable ! nat a)"
    using inverseTable_at_byte [OF a(1)] by (simp add: table_inv_def)
  show "GF256_inverse a = Some (Inr (inverseTable ! nat a))"
    using GF256_inverse_table [OF a] by (simp add: table_inv_def)
qed

theorem inverse_table_agrees_with_euclid_witness:
  "inverseTable_at 0x53 = Some 0xCA \<and> GF256_inverse 0x53 = Some (Inr 0xCA)"
proof -
  have "inverseTable ! nat 0x53 = 0xCA" by code_simp
  then show ?thesis
    using inverse_table_agrees_with_euclid [of "0x53"] by simp
qed

section \<open>The two interpolations\<close>

lemma gf256_div_as_mul:
  assumes "byte a" and "byte b" and "b \<noteq> 0"
  shows "gf256_div a b = Inr (gf256_mul a (table_inv b))"
  using assms
  by (simp add: gf256_div_def inverseTable_at_byte ToInt32_def gf256_mul_zero_left)

lemma GF256_div_eq:
  assumes "byte a" and "byte b"
  shows "GF256_div a b = Some (gf256_div a b)"
proof (cases "b = 0")
  case True
  then show ?thesis by (simp add: GF256_div_def gf256_div_def)
next
  case False
  with assms show ?thesis
    using table_inv_law(2) [of b]
    by (simp add: GF256_div_def byte_and_ff Let_def GF256_inverse_table GF256_mul_eq
        gf256_div_as_mul gf256_mul_zero_left)
qed

lemma gf256_mul_interchange:
  assumes a: "byte a" and b: "byte b" and c: "byte c" and d: "byte d"
  shows "gf256_mul (gf256_mul a b) (gf256_mul c d) = gf256_mul (gf256_mul a c) (gf256_mul b d)"
proof -
  have cd: "byte (gf256_mul c d)" and bd: "byte (gf256_mul b d)"
    using b c by (simp_all add: byte_gf256_mul)
  have "gf256_mul (gf256_mul a b) (gf256_mul c d) = gf256_mul a (gf256_mul b (gf256_mul c d))"
    using a b cd by (rule gf256_mul_assoc)
  also have "gf256_mul b (gf256_mul c d) = gf256_mul (gf256_mul b c) d"
    using gf256_mul_assoc [OF b c d] by simp
  also have "gf256_mul b c = gf256_mul c b"
    using b c by (rule gf256_mul_commute)
  also have "gf256_mul (gf256_mul c b) d = gf256_mul c (gf256_mul b d)"
    using c b d by (rule gf256_mul_assoc)
  also have "gf256_mul a (gf256_mul c (gf256_mul b d)) = gf256_mul (gf256_mul a c) (gf256_mul b d)"
    using gf256_mul_assoc [OF a c bd] by simp
  finally show ?thesis .
qed

lemma gf256_mul_nonzero:
  assumes a: "byte a" and b: "byte b" and "a \<noteq> 0" and "b \<noteq> 0"
  shows "gf256_mul a b \<noteq> 0"
proof
  assume z: "gf256_mul a b = 0"
  have ib: "byte (table_inv b)" using b \<open>b \<noteq> 0\<close> by (rule table_inv_law)
  have "a = gf256_mul a (gf256_mul b (table_inv b))"
    using table_inv_law(1) [OF b \<open>b \<noteq> 0\<close>] by (simp add: gf256_mul_one_right)
  also have "\<dots> = gf256_mul (gf256_mul a b) (table_inv b)"
    using gf256_mul_assoc [OF a b ib] by simp
  also have "\<dots> = 0" using z by (simp add: gf256_mul_zero_left)
  finally show False using \<open>a \<noteq> 0\<close> by simp
qed

lemma table_inv_unique:
  assumes c: "byte c" and "c \<noteq> 0" and e: "byte e" and one: "gf256_mul c e = 1"
  shows "e = table_inv c"
proof -
  have ic: "byte (table_inv c)" using c \<open>c \<noteq> 0\<close> by (rule table_inv_law)
  have "e = gf256_mul e (gf256_mul c (table_inv c))"
    using table_inv_law(1) [OF c \<open>c \<noteq> 0\<close>] by (simp add: gf256_mul_one_right)
  also have "\<dots> = gf256_mul (gf256_mul e c) (table_inv c)"
    using gf256_mul_assoc [OF e c ic] by simp
  also have "gf256_mul e c = gf256_mul c e" using e c by (rule gf256_mul_commute)
  also have "gf256_mul (gf256_mul c e) (table_inv c) = table_inv c"
    using one ic by (simp add: gf256_mul_one_left)
  finally show ?thesis .
qed

lemma table_inv_mul:
  assumes c: "byte c" and "c \<noteq> 0" and d: "byte d" and "d \<noteq> 0"
  shows "table_inv (gf256_mul c d) = gf256_mul (table_inv c) (table_inv d)"
proof -
  have ic: "byte (table_inv c)" and id: "byte (table_inv d)"
    using assms by (simp_all add: table_inv_law)
  have "gf256_mul (gf256_mul c d) (gf256_mul (table_inv c) (table_inv d))
      = gf256_mul (gf256_mul c (table_inv c)) (gf256_mul d (table_inv d))"
    using c d ic id by (rule gf256_mul_interchange)
  also have "\<dots> = 1"
    using assms by (simp add: table_inv_law gf256_mul_one_right)
  finally have "gf256_mul (table_inv c) (table_inv d) = table_inv (gf256_mul c d)"
    using c d ic assms(2,4)
    by (intro table_inv_unique) (simp_all add: byte_gf256_mul gf256_mul_nonzero)
  then show ?thesis by simp
qed

lemma byte_points_nth:
  assumes "byte_points points" and "j < length points"
  obtains a b where "points ! j = (Some a, b)" and "byte a" and "byte (ToInt32 b)"
  using assms nth_mem [of j points] unfolding byte_points_def by blast

lemma xor_eq_zero: "(a::int) XOR c = 0 \<Longrightarrow> a = c"
  by (metis xor.assoc bit.xor_self xor.left_neutral xor.right_neutral)

lemma distinct_x_xor:
  assumes "byte_points points" and "distinct (map fst points)"
    and "i < length points" and "j < length points" and "i \<noteq> j"
  shows "ToInt32 (fst (points ! i)) XOR ToInt32 (fst (points ! j)) \<noteq> 0"
proof -
  obtain a b where i: "points ! i = (Some a, b)"
    using assms(1,3) by (rule byte_points_nth)
  obtain c d where j: "points ! j = (Some c, d)"
    using assms(1,4) by (rule byte_points_nth)
  have "map fst points ! i \<noteq> map fst points ! j"
    using nth_eq_iff_index_eq [OF assms(2), of i j] assms(3-5) by simp
  then have "a \<noteq> c" using i j assms(3,4) by simp
  then show ?thesis using i j xor_eq_zero [of a c] by (auto simp: ToInt32_def)
qed

lemma inner_loops_agree:
  assumes bp: "byte_points points" and dx: "distinct (map fst points)"
    and i: "i < length points"
  shows "\<forall>j \<in> set ks. j < length points \<Longrightarrow> byte N \<Longrightarrow> byte D \<Longrightarrow> D \<noteq> 0 \<Longrightarrow>
    \<exists>N' D'. fold (fraction_step points i) ks (N, D) = (N', D')
      \<and> byte N' \<and> byte D' \<and> D' \<noteq> 0
      \<and> fold (basis_step points i) ks (Some (Inr (gf256_mul N (table_inv D))))
          = Some (Inr (gf256_mul N' (table_inv D')))"
proof (induction ks arbitrary: N D)
  case Nil
  then show ?case by simp
next
  case (Cons j ks)
  then have j: "j < length points" and ks: "\<forall>j \<in> set ks. j < length points" by simp_all
  show ?case
  proof (cases "i = j")
    case True
    then have "fraction_step points i j (N, D) = (N, D)"
      and "basis_step points i j (Some (Inr (gf256_mul N (table_inv D))))
          = Some (Inr (gf256_mul N (table_inv D)))"
      by (simp_all add: basis_step_def)
    then show ?thesis
      using Cons.IH [OF ks Cons.prems(2,3,4)] by simp
  next
    case False
    obtain a b where pj: "points ! j = (Some a, b)" and a: "byte a"
      using bp j by (rule byte_points_nth)
    obtain c e where pi: "points ! i = (Some c, e)" and c: "byte c"
      using bp i by (rule byte_points_nth)
    let ?d = "a XOR c"
    have d: "byte ?d" using a c by (rule byte_xor)
    have dn: "c XOR a \<noteq> 0"
      using distinct_x_xor [OF bp dx i j False] pi pj by (simp add: ToInt32_def)
    then have dn': "?d \<noteq> 0" by (simp add: xor.commute)
    have iD: "byte (table_inv D)" and id: "byte (table_inv ?d)"
      using Cons.prems(3,4) d dn' by (simp_all add: table_inv_law)
    have frac: "fraction_step points i j (N, D) = (gf256_mul N a, gf256_mul D ?d)"
      using False pi pj by (simp add: ToInt32_def)
    have quot: "GF256_div a (c XOR a) = Some (Inr (gf256_mul a (table_inv ?d)))"
      using GF256_div_eq [OF a d] gf256_div_as_mul [OF a d dn'] by (simp add: xor.commute)
    have B: "byte (gf256_mul N (table_inv D))" and T: "byte (gf256_mul a (table_inv ?d))"
      using Cons.prems(2) a by (simp_all add: byte_gf256_mul)
    have "gf256_mul (gf256_mul N (table_inv D)) (gf256_mul a (table_inv ?d))
        = gf256_mul (gf256_mul N a) (gf256_mul (table_inv D) (table_inv ?d))"
      using Cons.prems(2) iD a id by (rule gf256_mul_interchange)
    also have "gf256_mul (table_inv D) (table_inv ?d) = table_inv (gf256_mul D ?d)"
      using table_inv_mul [OF Cons.prems(3,4) d dn'] by simp
    finally have prod: "gf256_mul (gf256_mul N (table_inv D)) (gf256_mul a (table_inv ?d))
        = gf256_mul (gf256_mul N a) (table_inv (gf256_mul D ?d))" .
    have basis: "basis_step points i j (Some (Inr (gf256_mul N (table_inv D))))
        = Some (Inr (gf256_mul (gf256_mul N a) (table_inv (gf256_mul D ?d))))"
      using False pi pj dn quot prod GF256_mul_eq [OF B T]
      by (simp add: basis_step_def ToInt32_def)
    have "byte (gf256_mul N a)" and "byte (gf256_mul D ?d)" and "gf256_mul D ?d \<noteq> 0"
      using Cons.prems(2,3,4) d dn' by (simp_all add: byte_gf256_mul gf256_mul_nonzero)
    from Cons.IH [OF ks this] show ?thesis
      using frac basis by simp
  qed
qed

lemma table_inv_one: "table_inv 1 = 1"
  by (simp add: table_inv_def inverseTable_def)

lemma basis_agrees:
  assumes bp: "byte_points points" and dx: "distinct (map fst points)"
    and i: "i < length points"
  obtains N D where "lagrange_fraction points i = (N, D)" and "byte N" and "byte D"
    and "D \<noteq> 0" and "lagrange_basis points i = Some (Inr (gf256_mul N (table_inv D)))"
proof -
  have "\<forall>j \<in> set [0 ..< length points]. j < length points" by simp
  from inner_loops_agree [OF bp dx i this, of 1 1]
  obtain N D where "fold (fraction_step points i) [0 ..< length points] (1, 1) = (N, D)"
    and "byte N" and "byte D" and "D \<noteq> 0"
    and "fold (basis_step points i) [0 ..< length points] (Some (Inr (gf256_mul 1 (table_inv 1))))
          = Some (Inr (gf256_mul N (table_inv D)))"
    by (auto simp: byte_numerals)
  then show ?thesis
    using that [of N D]
    by (simp add: lagrange_fraction_def lagrange_basis_def table_inv_one gf256_mul_one_right)
qed

lemma outer_loops_agree:
  assumes bp: "byte_points points" and dx: "distinct (map fst points)"
  shows "\<forall>i \<in> set is. i < length points \<Longrightarrow> byte r \<Longrightarrow>
    \<exists>r'. fold (lagrange_step points) is (Inr r) = Inr r' \<and> byte r'
      \<and> fold (lagrange_test_step points) is (Some (Inr r)) = Some (Inr r')"
proof (induction "is" arbitrary: r)
  case Nil
  then show ?case by simp
next
  case (Cons i "is")
  then have i: "i < length points" and rest: "\<forall>i \<in> set is. i < length points" by simp_all
  obtain a y where pi: "points ! i = (Some a, y)" and b: "byte (ToInt32 y)"
    using bp i by (rule byte_points_nth)
  obtain N D where frac: "lagrange_fraction points i = (N, D)" and N: "byte N" and D: "byte D"
    and Dn: "D \<noteq> 0" and basis: "lagrange_basis points i = Some (Inr (gf256_mul N (table_inv D)))"
    using bp dx i by (rule basis_agrees)
  let ?q = "gf256_mul N (table_inv D)"
  let ?r = "r XOR gf256_mul (ToInt32 y) ?q"
  have q: "byte ?q" using N by (rule byte_gf256_mul)
  have r: "byte ?r" using Cons.prems(2) b by (simp add: byte_xor byte_gf256_mul)
  have zero: "y = Some 0 \<Longrightarrow> ?r = r"
    by (simp add: ToInt32_def gf256_mul_zero_left)
  have one: "lagrange_step points i (Inr r) = Inr ?r"
    using pi frac gf256_div_as_mul [OF N D Dn] zero
    by (simp add: lagrange_step_def)
  have two: "lagrange_test_step points i (Some (Inr r)) = Some (Inr ?r)"
    using pi basis GF256_mul_eq [OF b q]
    by (simp add: lagrange_test_step_def)
  from Cons.IH [OF rest r] show ?case
    using one two by simp
qed

text \<open>
  C7. The claim: on every list of points with pairwise distinct \<open>x\<close> the two
  interpolations return the same byte. \<open>combineShares\<close> takes \<open>x\<close> from
  \<open>parseInt\<close> of two characters, which is \<open>NaN\<close> for \<open>zz\<close> and \<open>-15\<close> for \<open>-f\<close>.
  The shares \<open>80zz00\<close> and \<open>800000\<close> give the points \<open>(NaN, 0)\<close> and \<open>(0, 0)\<close>, the
  shares \<open>80-f00\<close> and \<open>80f100\<close> the points \<open>(-15, 0)\<close> and \<open>(241, 0)\<close>. On either
  list the \<open>x\<close> are distinct, \<open>lagrangeInterpolation\<close> of improved-crypto.js skips both
  points and returns 0, and the one of test.js throws: \<open>NaN ^ 0\<close> is 0, a duplicate to
  it, and \<open>-15 ^ 241\<close> is \<open>-256\<close>, which \<open>GF256.div\<close> masks to the divisor 0.
\<close>

theorem lagrange_differ_on_parsed_x:
  "decodeShare (Some (js ''80zz00'')) = Inr \<lparr>dec_x = None, dec_y = [0]\<rparr>
   \<and> decodeShare (Some (js ''800000'')) = Inr \<lparr>dec_x = Some 0, dec_y = [0]\<rparr>
   \<and> points_at [\<lparr>dec_x = None, dec_y = [0]\<rparr>, \<lparr>dec_x = Some 0, dec_y = [0]\<rparr>] 0
       = [(None, Some 0), (Some 0, Some 0)]
   \<and> distinct (map fst ([(None, Some 0), (Some 0, Some 0)] :: point list))
   \<and> lagrangeInterpolation [(None, Some 0), (Some 0, Some 0)] = Inr 0
   \<and> lagrangeInterpolation_test [(None, Some 0), (Some 0, Some 0)] = Some (Inl DuplicateX)
   \<and> decodeShare (Some (js ''80-f00'')) = Inr \<lparr>dec_x = Some (- 15), dec_y = [0]\<rparr>
   \<and> decodeShare (Some (js ''80f100'')) = Inr \<lparr>dec_x = Some 241, dec_y = [0]\<rparr>
   \<and> distinct (map fst ([(Some (- 15), Some 0), (Some 241, Some 0)] :: point list))
   \<and> lagrangeInterpolation [(Some (- 15), Some 0), (Some 241, Some 0)] = Inr 0
   \<and> lagrangeInterpolation_test [(Some (- 15), Some 0), (Some 241, Some 0)]
       = Some (Inl DivisionByZero)"
  by code_simp

text \<open>
  C7, amended. On every list of points as the two interpolations are given them (one
  point for each share, so at least one) whose \<open>x\<close> are bytes, from 0 to 255, and
  pairwise distinct, and whose \<open>y\<close> are bytes or \<open>undefined\<close>, the interpolation of
  improved-crypto.js (one division of the product of the \<open>xj\<close> by the product of the
  \<open>xj ^ xi\<close>) and the one of test.js (the product of the quotients, with the check for
  a duplicate) both return, and return the same byte.
\<close>

theorem lagrange_implementations_agree:
  "points \<noteq> []
   \<and> (\<forall>p \<in> set points. \<exists>a. fst p = Some a \<and> 0 \<le> a \<and> a \<le> 255
          \<and> (\<forall>b. snd p = Some b \<longrightarrow> 0 \<le> b \<and> b \<le> 255))
   \<and> distinct (map fst points) \<longrightarrow>
     (\<exists>v. 0 \<le> v \<and> v \<le> 255 \<and> lagrangeInterpolation points = Inr v
        \<and> lagrangeInterpolation_test points = Some (Inr v))"
proof
  assume h: "points \<noteq> []
   \<and> (\<forall>p \<in> set points. \<exists>a. fst p = Some a \<and> 0 \<le> a \<and> a \<le> 255
          \<and> (\<forall>b. snd p = Some b \<longrightarrow> 0 \<le> b \<and> b \<le> 255))
   \<and> distinct (map fst points)"
  have "byte_points points"
    unfolding byte_points_def
  proof
    fix p
    assume "p \<in> set points"
    with h obtain a where a: "fst p = Some a" "0 \<le> a" "a \<le> 255"
      and y: "\<forall>b. snd p = Some b \<longrightarrow> 0 \<le> b \<and> b \<le> 255"
      by blast
    have "byte (ToInt32 (snd p))"
      using y by (cases "snd p") (simp_all add: ToInt32_def byte_def)
    moreover have "p = (Some a, snd p)" using a(1) by (cases p) simp
    ultimately show "\<exists>a y. p = (Some a, y) \<and> byte a \<and> byte (ToInt32 y)"
      using a(2,3) unfolding byte_def by blast
  qed
  moreover from h have "distinct (map fst points)" by simp
  moreover have "\<forall>i \<in> set [0 ..< length points]. i < length points" by simp
  ultimately obtain v where "fold (lagrange_step points) [0 ..< length points] (Inr 0) = Inr v"
    and "byte v"
    and "fold (lagrange_test_step points) [0 ..< length points] (Some (Inr 0)) = Some (Inr v)"
    using outer_loops_agree [of points "[0 ..< length points]" 0]
    by (auto simp: byte_numerals)
  then have "0 \<le> v \<and> v \<le> 255 \<and> lagrangeInterpolation points = Inr v
        \<and> lagrangeInterpolation_test points = Some (Inr v)"
    using h by (simp add: lagrangeInterpolation_def lagrangeInterpolation_test_def byte_def)
  then show "\<exists>v. 0 \<le> v \<and> v \<le> 255 \<and> lagrangeInterpolation points = Inr v
        \<and> lagrangeInterpolation_test points = Some (Inr v)" ..
qed

theorem lagrange_implementations_agree_witness:
  "lagrangeInterpolation [(Some 1, Some 3), (Some 2, Some 0xC0)] = Inr 0x42
   \<and> lagrangeInterpolation_test [(Some 1, Some 3), (Some 2, Some 0xC0)] = Some (Inr 0x42)
   \<and> lagrangeInterpolation [(Some 1, Some 0x41), (Some 2, None)] = Inr 0x7E
   \<and> lagrangeInterpolation_test [(Some 1, Some 0x41), (Some 2, None)] = Some (Inr 0x7E)"
proof -
  have run: "lagrangeInterpolation [(Some 1, Some 3), (Some 2, Some 0xC0)] = Inr 0x42"
    by code_simp
  have run': "lagrangeInterpolation [(Some 1, Some 0x41), (Some 2, None)] = Inr 0x7E"
    by code_simp
  show ?thesis
    using lagrange_implementations_agree [of "[(Some 1, Some 3), (Some 2, Some 0xC0)]"]
      lagrange_implementations_agree [of "[(Some 1, Some 0x41), (Some 2, None)]"] run run'
    by simp
qed

section \<open>The fallback key derivation\<close>

lemma length_toHex_small: "n < 16 \<Longrightarrow> length (toHex n) = 1"
  by (subst toHex.simps) simp

lemma length_toHex_byte: "16 \<le> n \<Longrightarrow> n < 256 \<Longrightarrow> length (toHex n) = 2"
  by (subst toHex.simps) (simp add: length_toHex_small)

lemma length_hex_of_byte: "length (padStart2 (toString16 (uint (b :: 8 word)))) = 2"
proof -
  have "0 \<le> uint b" and "uint b < 256"
    using uint_bounded [of b] by simp_all
  then show ?thesis
    using length_toHex_small [of "uint b"] length_toHex_byte [of "uint b"]
    by (cases "uint b < 16") (simp_all add: padStart2_def toString16_def)
qed

lemma length_bytesToHex: "length (bytesToHex bytes) = 2 * length bytes"
  by (induction bytes) (simp_all add: bytesToHex_def length_hex_of_byte)

text \<open>
  C8. \<open>fallbackDeriveKey\<close> reads nothing but its arguments: two runs on the same
  password and salt give the same key and the same salt text. The key text has 64
  hexadecimal characters, which are 32 bytes, and the salt text of a salt of 16 bytes is
  \<open>bytesToHex\<close> of it, 32 characters. Reached through \<open>deriveKeyFromPassword\<close> with
  a salt, on two platforms without \<open>subtle\<close>, whatever their random bytes, clocks and
  encoders are, the two runs resolve to the same value.
\<close>

theorem fallbackDeriveKey_deterministic:
  "(length salt = 16 \<and> run1 = fallbackDeriveKey password salt
      \<and> run2 = fallbackDeriveKey password salt \<longrightarrow>
     dk_key run1 = dk_key run2 \<and> dk_salt run1 = dk_salt run2
     \<and> length (dk_key run1) = 64 \<and> length (dk_salt run1) = 32
     \<and> dk_salt run1 = bytesToHex salt)
   \<and> (support W1 \<noteq> Subtle \<and> support W2 \<noteq> Subtle \<longrightarrow>
        deriveKeyFromPassword W1 P1 password (Some salt) = Inr (fallbackDeriveKey password salt)
        \<and> deriveKeyFromPassword W2 P2 password (Some salt)
            = deriveKeyFromPassword W1 P1 password (Some salt))"
  by (simp add: fallbackDeriveKey_def deriveKeyFromPassword_def Let_def length_bytesToHex)

theorem fallbackDeriveKey_deterministic_witness:
  "length (dk_key (fallbackDeriveKey (js ''pw1'') [1, 2, 3, 4, 5, 6, 7, 8, 9, 10, 11, 12, 13, 14, 15, 16])) = 64
   \<and> dk_salt (fallbackDeriveKey (js ''pw1'') [1, 2, 3, 4, 5, 6, 7, 8, 9, 10, 11, 12, 13, 14, 15, 16])
       = js ''0102030405060708090a0b0c0d0e0f10''
   \<and> deriveKeyFromPassword
         \<lparr>support = NoCrypto, pbkdf2 = (\<lambda>p s. None), aesGcmEncrypt = (\<lambda>k i d. None),
           mathRandom = (\<lambda>i. 9), now = js ''2025-06-01T12:00:00.000Z''\<rparr>
         (ascii_platform 0x99) (js ''pw1'') (Some [1, 2, 3, 4, 5, 6, 7, 8, 9, 10, 11, 12, 13, 14, 15, 16])
       = deriveKeyFromPassword
           \<lparr>support = NoSubtle, pbkdf2 = (\<lambda>p s. None), aesGcmEncrypt = (\<lambda>k i d. None),
             mathRandom = (\<lambda>i. 7), now = js ''2024-01-01T00:00:00.000Z''\<rparr>
           (ascii_platform 0x42) (js ''pw1'') (Some [1, 2, 3, 4, 5, 6, 7, 8, 9, 10, 11, 12, 13, 14, 15, 16])"
proof -
  let ?salt = "[1, 2, 3, 4, 5, 6, 7, 8, 9, 10, 11, 12, 13, 14, 15, 16] :: 8 word list"
  let ?W1 = "\<lparr>support = NoSubtle, pbkdf2 = (\<lambda>p s. None), aesGcmEncrypt = (\<lambda>k i d. None),
             mathRandom = (\<lambda>i. 7), now = js ''2024-01-01T00:00:00.000Z''\<rparr>"
  let ?W2 = "\<lparr>support = NoCrypto, pbkdf2 = (\<lambda>p s. None), aesGcmEncrypt = (\<lambda>k i d. None),
           mathRandom = (\<lambda>i. 9), now = js ''2025-06-01T12:00:00.000Z''\<rparr>"
  have s: "bytesToHex ?salt = js ''0102030405060708090a0b0c0d0e0f10''"
    by code_simp
  have l: "length ?salt = 16" by simp
  have w: "support ?W1 \<noteq> Subtle \<and> support ?W2 \<noteq> Subtle" by simp
  note inst = fallbackDeriveKey_deterministic [where password = "js ''pw1''" and salt = "?salt"
        and ?run1.0 = "fallbackDeriveKey (js ''pw1'') ?salt"
        and ?run2.0 = "fallbackDeriveKey (js ''pw1'') ?salt"
        and ?W1.0 = "?W1" and ?W2.0 = "?W2"
        and ?P1.0 = "ascii_platform 0x42" and ?P2.0 = "ascii_platform 0x99"]
  from inst l have "length (dk_key (fallbackDeriveKey (js ''pw1'') ?salt)) = 64
      \<and> dk_salt (fallbackDeriveKey (js ''pw1'') ?salt) = bytesToHex ?salt"
    by blast
  moreover from inst w have "deriveKeyFromPassword ?W2 (ascii_platform 0x99) (js ''pw1'') (Some ?salt)
      = deriveKeyFromPassword ?W1 (ascii_platform 0x42) (js ''pw1'') (Some ?salt)"
    by blast
  ultimately show ?thesis using s by simp
qed

section \<open>Storing the key when IndexedDB fails\<close>














end
